theory Spec2Isabelle
  imports Main "HOL-Library.Word"
begin

unbundle bit_operations_syntax

section \<open>Clock start-up of the STM32F107 example (main.c, hdr_rcc.h)\<close>

text \<open>
  The development embeds the two local functions of \<^verbatim>\<open>main.c\<close> of the project
  \<^verbatim>\<open>stm32cl_blink_led\<close>: \<^verbatim>\<open>flash_latency\<close> and \<^verbatim>\<open>pll_start\<close>. All C variables are
  \<^verbatim>\<open>uint32_t\<close>, modelled as 32-bit words: multiplication and subtraction wrap
  modulo \<open>2 ^ 32\<close>, division and comparison are unsigned.
\<close>

type_synonym u32 = "32 word"

subsection \<open>Bit positions and field values of hdr_rcc.h\<close>

definition RCC_CR_PLL2RDY_bit :: nat where "RCC_CR_PLL2RDY_bit = 27"
definition RCC_CR_PLL2ON_bit :: nat where "RCC_CR_PLL2ON_bit = 26"
definition RCC_CR_PLLRDY_bit :: nat where "RCC_CR_PLLRDY_bit = 25"
definition RCC_CR_PLLON_bit :: nat where "RCC_CR_PLLON_bit = 24"
definition RCC_CR_HSERDY_bit :: nat where "RCC_CR_HSERDY_bit = 17"
definition RCC_CR_HSEON_bit :: nat where "RCC_CR_HSEON_bit = 16"

definition RCC_CFGR_PLLMUL_bit :: nat where "RCC_CFGR_PLLMUL_bit = 18"
definition RCC_CFGR_PLLMUL6_5_value :: u32 where "RCC_CFGR_PLLMUL6_5_value = 13"

definition RCC_CFGR2_PLL2MUL_bit :: nat where "RCC_CFGR2_PLL2MUL_bit = 8"
definition RCC_CFGR2_PREDIV2_bit :: nat where "RCC_CFGR2_PREDIV2_bit = 4"
definition RCC_CFGR2_PREDIV1_bit :: nat where "RCC_CFGR2_PREDIV1_bit = 0"
definition RCC_CFGR2_PLL2MUL20_value :: u32 where "RCC_CFGR2_PLL2MUL20_value = 15"

text \<open>
  The header also tabulates the encodings of the fields, one macro per setting
  (\<^verbatim>\<open>RCC_CFGR2_PLL2MUL8_value 6\<close> ... \<^verbatim>\<open>RCC_CFGR2_PLL2MUL20_value 15\<close>,
  \<^verbatim>\<open>RCC_CFGR_PLLMUL4_value 2\<close> ... \<^verbatim>\<open>RCC_CFGR_PLLMUL6_5_value 13\<close>,
  \<^verbatim>\<open>RCC_CFGR2_PREDIV2_DIV1_value 0\<close> ... \<^verbatim>\<open>RCC_CFGR2_PREDIV2_DIV16_value 15\<close>,
  and the same for \<^verbatim>\<open>PREDIV1\<close>).
  The tables are association lists from the setting to the macro's value; the
  multiplier 6.5 is listed under the loop value 10 that \<^verbatim>\<open>pll_start\<close> uses for it.
\<close>

definition RCC_CFGR2_PLL2MUL_values :: "(nat \<times> nat) list" where
  "RCC_CFGR2_PLL2MUL_values =
     [(8, 6), (9, 7), (10, 8), (11, 9), (12, 10), (13, 11), (14, 12), (16, 14), (20, 15)]"

definition RCC_CFGR_PLLMUL_values :: "(nat \<times> nat) list" where
  "RCC_CFGR_PLLMUL_values =
     [(4, 2), (5, 3), (6, 4), (7, 5), (8, 6), (9, 7), (10, 13)]"

definition RCC_CFGR2_PREDIV2_values :: "(nat \<times> nat) list" where
  "RCC_CFGR2_PREDIV2_values =
     [(1, 0), (2, 1), (3, 2), (4, 3), (5, 4), (6, 5), (7, 6), (8, 7),
      (9, 8), (10, 9), (11, 10), (12, 11), (13, 12), (14, 13), (15, 14), (16, 15)]"

definition RCC_CFGR2_PREDIV1_values :: "(nat \<times> nat) list" where
  "RCC_CFGR2_PREDIV1_values =
     [(1, 0), (2, 1), (3, 2), (4, 3), (5, 4), (6, 5), (7, 6), (8, 7),
      (9, 8), (10, 9), (11, 10), (12, 11), (13, 12), (14, 13), (15, 14), (16, 15)]"

subsection \<open>Masks of stm32f10x.h\<close>

text \<open>
  \<^verbatim>\<open>pll_start\<close> uses six masks of the vendor header \<^verbatim>\<open>inc/stm32f10x.h\<close>, which
  is not among the sources. They are parameters of the model, collected in a
  record with the macros' names.
\<close>

record stm32f10x =
  RCC_CFGR2_PREDIV1SRC :: u32
  RCC_CFGR_PLLSRC :: u32
  RCC_CFGR_PPRE1_DIV2 :: u32
  RCC_CFGR_SW_PLL :: u32
  RCC_CFGR_SWS :: u32
  RCC_CFGR_SWS_PLL :: u32

subsection \<open>The peripheral registers and the accesses of the program\<close>

datatype reg = FLASH_ACR | RCC_CR | RCC_CFGR | RCC_CFGR2

text \<open>
  The four kinds of access the program makes to a peripheral register: a write
  of 1 through a bit-band alias, a read through a bit-band alias with the value
  read, a read-modify-write \<^verbatim>\<open>reg |= v\<close> with the operand \<open>v\<close>, and a read of a
  whole register with the value read.
\<close>

datatype access =
    BB_Set reg nat
  | BB_Read reg nat bool
  | Reg_Or reg u32
  | Reg_Read reg u32

text \<open>
  The statements of \<^verbatim>\<open>pll_start\<close> and \<^verbatim>\<open>flash_latency\<close> that access a register,
  in the order of the source text and named after their comments: enable HSE
  clock; set the latency; configure PLL2MUL, PREDIV2 and PREDIV1; wait for
  stable clock; enable PLL2; configure PLL1MUL; wait for PLL2 lock; enable PLL;
  wait for PLL lock; change SYSCLK to PLL; wait for switch.
\<close>

datatype stmt =
    Enable_HSE
  | Set_latency
  | Configure_PLL2
  | Wait_HSE
  | Enable_PLL2
  | Configure_PLL1
  | Wait_PLL2
  | Enable_PLL
  | Wait_PLL
  | Switch_SYSCLK
  | Wait_switch

text \<open>
  The machine holds the register file, the state of the peripherals that the
  program cannot see (oscillator start-up, PLL lock, clock switch), and the
  trace: every access in program order, with the statement that made it. The
  registers are volatile: after every access the hardware may change the
  register file and its hidden state, which is the function \<open>hw\<close> that every
  operation takes. A read-modify-write \<^verbatim>\<open>reg |= v\<close> counts as one access.
\<close>

record 'h machine =
  regs :: "reg \<Rightarrow> u32"
  hidden :: 'h
  trace :: "(stmt \<times> access) list"

type_synonym 'h hardware = "(reg \<Rightarrow> u32) \<times> 'h \<Rightarrow> (reg \<Rightarrow> u32) \<times> 'h"

definition tick :: "'h hardware \<Rightarrow> stmt \<Rightarrow> access \<Rightarrow> 'h machine \<Rightarrow> 'h machine" where
  "tick hw l a s =
     (let (r, h) = hw (regs s, hidden s)
      in \<lparr>regs = r, hidden = h, trace = trace s @ [(l, a)]\<rparr>)"

text \<open>
  Modelled from the spec: the bit-band macros \<^verbatim>\<open>bitband_t\<close> and
  \<^verbatim>\<open>m_BITBAND_PERIPH\<close> of \<^verbatim>\<open>hdr/hdr_bitband.h\<close> are missing from the sources. The
  spec describes bit-band as addressing a single bit of a register as a
  standalone boolean variable: writing 1 sets that bit and leaves the others,
  reading gives that bit.
\<close>

definition bb_set :: "'h hardware \<Rightarrow> stmt \<Rightarrow> reg \<Rightarrow> nat \<Rightarrow> 'h machine \<Rightarrow> 'h machine" where
  "bb_set hw l r n s =
     tick hw l (BB_Set r n) (s\<lparr>regs := (regs s)(r := set_bit n (regs s r))\<rparr>)"

definition bb_read :: "'h hardware \<Rightarrow> stmt \<Rightarrow> reg \<Rightarrow> nat \<Rightarrow> 'h machine \<Rightarrow> bool \<times> 'h machine" where
  "bb_read hw l r n s = (bit (regs s r) n, tick hw l (BB_Read r n (bit (regs s r) n)) s)"

definition reg_or :: "'h hardware \<Rightarrow> stmt \<Rightarrow> reg \<Rightarrow> u32 \<Rightarrow> 'h machine \<Rightarrow> 'h machine" where
  "reg_or hw l r v s =
     tick hw l (Reg_Or r v) (s\<lparr>regs := (regs s)(r := regs s r OR v)\<rparr>)"

definition reg_read :: "'h hardware \<Rightarrow> stmt \<Rightarrow> reg \<Rightarrow> 'h machine \<Rightarrow> u32 \<times> 'h machine" where
  "reg_read hw l r s = (regs s r, tick hw l (Reg_Read r (regs s r)) s)"

subsection \<open>flash\_latency\<close>

definition flash_latency :: "'h hardware \<Rightarrow> u32 \<Rightarrow> 'h machine \<Rightarrow> 'h machine" where
  "flash_latency hw frequency s =
     (let wait_states =
            (if frequency < 24000000 then 0
             else if frequency < 48000000 then 1
             else 2)
      in reg_or hw Set_latency FLASH_ACR wait_states s)"

subsection \<open>The parameter search of pll\_start\<close>

text \<open>The five \<^verbatim>\<open>best_\<close> variables of \<^verbatim>\<open>pll_start\<close>, all initialised to 0.\<close>

record best =
  best_div1 :: u32
  best_div2 :: u32
  best_mul1 :: u32
  best_mul2 :: u32
  best_frequency :: u32

definition best_init :: best where
  "best_init =
     \<lparr>best_div1 = 0, best_div2 = 0, best_mul1 = 0, best_mul2 = 0, best_frequency = 0\<rparr>"

text \<open>
  \<^verbatim>\<open>for (i = lo; i <= hi; i++) body\<close> with constant bounds: the body runs for
  \<open>lo\<close>, \<open>lo + 1\<close>, ..., \<open>hi\<close> in this order. No bound exceeds 20, so the
  counter does not wrap.
\<close>

definition loop_values :: "nat \<Rightarrow> nat \<Rightarrow> u32 list" where
  "loop_values lo hi = map of_nat [lo..<Suc hi]"

definition for_loop :: "nat \<Rightarrow> nat \<Rightarrow> (u32 \<Rightarrow> 'a \<Rightarrow> 'a) \<Rightarrow> 'a \<Rightarrow> 'a" where
  "for_loop lo hi body = fold body (loop_values lo hi)"

text \<open>The body of the innermost loop (over \<^verbatim>\<open>mul1\<close>); \<^verbatim>\<open>continue\<close> leaves the state.\<close>

definition mul1_body :: "u32 \<Rightarrow> u32 \<Rightarrow> u32 \<Rightarrow> u32 \<Rightarrow> u32 \<Rightarrow> u32 \<Rightarrow> best \<Rightarrow> best" where
  "mul1_body frequency pll2_frequency div2 mul2 div1 mul1 b =
     (let pll1_frequency =
            (if mul1 \<noteq> 10 then pll2_frequency div div1 * mul1
             else pll2_frequency div div1 * 13 div 2)
      in if pll1_frequency < 18000000 \<or> pll1_frequency > frequency then b
         else if pll1_frequency > best_frequency b
           then \<lparr>best_div1 = div1, best_div2 = div2, best_mul1 = mul1, best_mul2 = mul2,
                 best_frequency = pll1_frequency\<rparr>
           else b)"

text \<open>The body of the loop over \<^verbatim>\<open>mul2\<close>, with the two loops it contains.\<close>

definition mul2_body :: "u32 \<Rightarrow> u32 \<Rightarrow> u32 \<Rightarrow> u32 \<Rightarrow> best \<Rightarrow> best" where
  "mul2_body crystal frequency div2 mul2 b =
     (if mul2 = 15 \<or> mul2 = 17 \<or> mul2 = 18 \<or> mul2 = 19 then b
      else
        let pll2_frequency = crystal div div2 * mul2
        in if pll2_frequency < 18000000 \<or> pll2_frequency > 72000000 then b
           else for_loop 1 16 (\<lambda>div1.
                  for_loop 4 10 (\<lambda>mul1.
                    mul1_body frequency pll2_frequency div2 mul2 div1 mul1)) b)"

definition search :: "u32 \<Rightarrow> u32 \<Rightarrow> best" where
  "search crystal frequency =
     for_loop 1 16 (\<lambda>div2.
       for_loop 8 20 (\<lambda>mul2.
         mul2_body crystal frequency div2 mul2)) best_init"

subsection \<open>The switch sequence of pll\_start\<close>

text \<open>
  \<^verbatim>\<open>while (!flag_bb);\<close> reads the flag until it is set. The loop has no bound in
  the source. The model is given the number of reads the loop may make; the
  result says whether the flag was seen set (the loop has ended) or the reads
  are used up (the loop is still spinning), with the machine reached.
\<close>

fun wait_bb :: "nat \<Rightarrow> 'h hardware \<Rightarrow> stmt \<Rightarrow> reg \<Rightarrow> nat \<Rightarrow> 'h machine \<Rightarrow> bool \<times> 'h machine" where
  "wait_bb 0 hw l r n s = (False, s)"
| "wait_bb (Suc fuel) hw l r n s =
     (let (v, s') = bb_read hw l r n s
      in if v then (True, s') else wait_bb fuel hw l r n s')"

text \<open>\<^verbatim>\<open>while ((reg & m) != v);\<close>\<close>

fun wait_field ::
  "nat \<Rightarrow> 'h hardware \<Rightarrow> stmt \<Rightarrow> reg \<Rightarrow> u32 \<Rightarrow> u32 \<Rightarrow> 'h machine \<Rightarrow> bool \<times> 'h machine" where
  "wait_field 0 hw l r m v s = (False, s)"
| "wait_field (Suc fuel) hw l r m v s =
     (let (x, s') = reg_read hw l r s
      in if x AND m = v then (True, s') else wait_field fuel hw l r m v s')"

text \<open>
  The encoding of the chosen parameters into register fields. The source
  overwrites the variables in place: \<^verbatim>\<open>best_mul2\<close> becomes
  \<^verbatim>\<open>RCC_CFGR2_PLL2MUL20_value\<close> or \<^verbatim>\<open>best_mul2 - 2\<close>, then \<^verbatim>\<open>best_div2 -= 1\<close> and
  \<^verbatim>\<open>best_div1 -= 1\<close>, and after the first wait \<^verbatim>\<open>best_mul1\<close> becomes
  \<^verbatim>\<open>RCC_CFGR_PLLMUL6_5_value\<close> or \<^verbatim>\<open>best_mul1 - 2\<close>.
\<close>

definition encode_mul2 :: "u32 \<Rightarrow> u32" where
  "encode_mul2 m = (if m = 20 then RCC_CFGR2_PLL2MUL20_value else m - 2)"

definition encode_mul1 :: "u32 \<Rightarrow> u32" where
  "encode_mul1 m = (if m = 10 then RCC_CFGR_PLLMUL6_5_value else m - 2)"

definition encode_div :: "u32 \<Rightarrow> u32" where
  "encode_div d = d - 1"

definition cfgr2_operand :: "stm32f10x \<Rightarrow> best \<Rightarrow> u32" where
  "cfgr2_operand k b =
     (let best_mul2' = encode_mul2 (best_mul2 b);
          best_div2' = encode_div (best_div2 b);
          best_div1' = encode_div (best_div1 b)
      in RCC_CFGR2_PREDIV1SRC k OR push_bit RCC_CFGR2_PLL2MUL_bit best_mul2' OR
         push_bit RCC_CFGR2_PREDIV2_bit best_div2' OR
         push_bit RCC_CFGR2_PREDIV1_bit best_div1')"

definition cfgr_operand :: "stm32f10x \<Rightarrow> best \<Rightarrow> u32" where
  "cfgr_operand k b =
     (let best_mul1' = encode_mul1 (best_mul1 b)
      in push_bit RCC_CFGR_PLLMUL_bit best_mul1' OR RCC_CFGR_PLLSRC k OR
         RCC_CFGR_PPRE1_DIV2 k)"

text \<open>
  \<^verbatim>\<open>pll_start\<close>, statement by statement. The first component of the result is
  the returned frequency, or \<open>None\<close> when one of the four waits is still
  spinning after \<open>fuel\<close> reads; the second is the machine reached, whose trace
  holds the accesses made so far.
\<close>

definition pll_start ::
  "nat \<Rightarrow> 'h hardware \<Rightarrow> stm32f10x \<Rightarrow> u32 \<Rightarrow> u32 \<Rightarrow> 'h machine \<Rightarrow> u32 option \<times> 'h machine" where
  "pll_start fuel hw k crystal frequency s0 =
     (let s1 = bb_set hw Enable_HSE RCC_CR RCC_CR_HSEON_bit s0;
          s2 = flash_latency hw frequency s1;
          b = search crystal frequency;
          s3 = reg_or hw Configure_PLL2 RCC_CFGR2 (cfgr2_operand k b) s2;
          (ready, s4) = wait_bb fuel hw Wait_HSE RCC_CR RCC_CR_HSERDY_bit s3
      in if \<not> ready then (None, s4)
         else
           let s5 = bb_set hw Enable_PLL2 RCC_CR RCC_CR_PLL2ON_bit s4;
               s6 = reg_or hw Configure_PLL1 RCC_CFGR (cfgr_operand k b) s5;
               (locked2, s7) = wait_bb fuel hw Wait_PLL2 RCC_CR RCC_CR_PLL2RDY_bit s6
           in if \<not> locked2 then (None, s7)
              else
                let s8 = bb_set hw Enable_PLL RCC_CR RCC_CR_PLLON_bit s7;
                    (locked1, s9) = wait_bb fuel hw Wait_PLL RCC_CR RCC_CR_PLLRDY_bit s8
                in if \<not> locked1 then (None, s9)
                   else
                     let s10 = reg_or hw Switch_SYSCLK RCC_CFGR (RCC_CFGR_SW_PLL k) s9;
                         (switched, s11) =
                            wait_field fuel hw Wait_switch RCC_CFGR (RCC_CFGR_SWS k)
                              (RCC_CFGR_SWS_PLL k) s10
                     in if \<not> switched then (None, s11)
                        else (Some (best_frequency b), s11))"

text \<open>The accesses that one call of \<^verbatim>\<open>pll_start\<close> adds to the trace.\<close>

definition accesses ::
  "nat \<Rightarrow> 'h hardware \<Rightarrow> stm32f10x \<Rightarrow> u32 \<Rightarrow> u32 \<Rightarrow> 'h machine \<Rightarrow> (stmt \<times> access) list" where
  "accesses fuel hw k crystal frequency s0 =
     drop (length (trace s0)) (trace (snd (pll_start fuel hw k crystal frequency s0)))"

text \<open>
  \<open>before P Q xs\<close>: every element of \<open>xs\<close> that satisfies \<open>Q\<close> comes after an
  element that satisfies \<open>P\<close>.
\<close>

fun before :: "('a \<Rightarrow> bool) \<Rightarrow> ('a \<Rightarrow> bool) \<Rightarrow> 'a list \<Rightarrow> bool" where
  "before P Q [] = True"
| "before P Q (x # xs) = (if Q x then False else if P x then True else before P Q xs)"

subsection \<open>The search as one pass over the grid of parameters\<close>

text \<open>
  The four nested loops visit the tuples \<open>(div2, mul2, div1, mul1)\<close> in a fixed
  order. The definitions below name what the loop bodies compute for one
  tuple: the two frequencies, the conjunction of the three guards that a tuple
  must pass to reach the comparison with \<^verbatim>\<open>best_frequency\<close>, and the values
  stored when it wins.
\<close>

type_synonym params = "u32 \<times> u32 \<times> u32 \<times> u32"

fun pll2_of :: "u32 \<Rightarrow> params \<Rightarrow> u32" where
  "pll2_of crystal (div2, mul2, div1, mul1) = crystal div div2 * mul2"

fun pll1_of :: "u32 \<Rightarrow> params \<Rightarrow> u32" where
  "pll1_of crystal (div2, mul2, div1, mul1) =
     (if mul1 \<noteq> 10 then (crystal div div2 * mul2) div div1 * mul1
      else (crystal div div2 * mul2) div div1 * 13 div 2)"

fun accepted :: "u32 \<Rightarrow> u32 \<Rightarrow> params \<Rightarrow> bool" where
  "accepted crystal frequency (div2, mul2, div1, mul1) =
     (\<not> (mul2 = 15 \<or> mul2 = 17 \<or> mul2 = 18 \<or> mul2 = 19) \<and>
      \<not> (pll2_of crystal (div2, mul2, div1, mul1) < 18000000 \<or>
         pll2_of crystal (div2, mul2, div1, mul1) > 72000000) \<and>
      \<not> (pll1_of crystal (div2, mul2, div1, mul1) < 18000000 \<or>
         pll1_of crystal (div2, mul2, div1, mul1) > frequency))"

fun saved :: "u32 \<Rightarrow> params \<Rightarrow> best" where
  "saved crystal (div2, mul2, div1, mul1) =
     \<lparr>best_div1 = div1, best_div2 = div2, best_mul1 = mul1, best_mul2 = mul2,
      best_frequency = pll1_of crystal (div2, mul2, div1, mul1)\<rparr>"

text \<open>
  One iteration of the innermost loop as a function of the tuple: a tuple that
  passes the guards with a frequency above \<^verbatim>\<open>best_frequency\<close> is stored.
\<close>

definition visit :: "u32 \<Rightarrow> u32 \<Rightarrow> params \<Rightarrow> best \<Rightarrow> best" where
  "visit crystal frequency t b =
     (if accepted crystal frequency t \<and> pll1_of crystal t > best_frequency b
      then saved crystal t else b)"

text \<open>All tuples of loop values, in the order in which the loops visit them.\<close>

definition grid :: "params list" where
  "grid =
     concat (map (\<lambda>div2.
       concat (map (\<lambda>mul2.
         concat (map (\<lambda>div1.
           map (\<lambda>mul1. (div2, mul2, div1, mul1)) (loop_values 4 10))
         (loop_values 1 16)))
       (loop_values 8 20)))
     (loop_values 1 16))"

text \<open>
  \<open>first_best crystal frequency xs b t\<close>: in the list \<open>xs\<close> the tuple \<open>t\<close> passes the
  guards with a frequency above the one stored in \<open>b\<close>, every tuple before it that
  passes gives strictly less, and every tuple after it that passes gives at
  most as much.
\<close>

definition first_best :: "u32 \<Rightarrow> u32 \<Rightarrow> params list \<Rightarrow> best \<Rightarrow> params \<Rightarrow> bool" where
  "first_best crystal frequency xs b t \<longleftrightarrow>
     (\<exists>ys zs. xs = ys @ t # zs \<and> accepted crystal frequency t \<and>
        best_frequency b < pll1_of crystal t \<and>
        (\<forall>u\<in>set ys. accepted crystal frequency u \<longrightarrow> pll1_of crystal u < pll1_of crystal t) \<and>
        (\<forall>u\<in>set zs. accepted crystal frequency u \<longrightarrow> pll1_of crystal u \<le> pll1_of crystal t))"

text \<open>Some tuple of the grid passes the three guards of the search.\<close>

definition feasible :: "u32 \<Rightarrow> u32 \<Rightarrow> bool" where
  "feasible crystal frequency \<longleftrightarrow> (\<exists>t\<in>set grid. accepted crystal frequency t)"

text \<open>
  The order in which the loops visit the tuples: \<open>div2\<close> ascending, then \<open>mul2\<close>,
  then \<open>div1\<close>, then \<open>mul1\<close> (by loop value, so that 6.5, the loop value 10,
  comes after 9).
\<close>

fun loop_less :: "params \<Rightarrow> params \<Rightarrow> bool" where
  "loop_less (div2, mul2, div1, mul1) (div2', mul2', div1', mul1') =
     (div2 < div2' \<or> (div2 = div2' \<and>
       (mul2 < mul2' \<or> (mul2 = mul2' \<and>
         (div1 < div1' \<or> (div1 = div1' \<and> mul1 < mul1'))))))"

definition loop_le :: "params \<Rightarrow> params \<Rightarrow> bool" where
  "loop_le t u \<longleftrightarrow> t = u \<or> loop_less t u"

text \<open>The tuple held in the four \<^verbatim>\<open>best_\<close> parameters.\<close>

definition best_params :: "best \<Rightarrow> params" where
  "best_params b = (best_div2 b, best_mul2 b, best_div1 b, best_mul1 b)"

text \<open>
  The ratio, as numerator and denominator, by which the search multiplies for a
  loop value of \<^verbatim>\<open>mul1\<close>: \<^verbatim>\<open>pll2_frequency / div1 * mul1\<close>, and
  \<^verbatim>\<open>pll2_frequency / div1 * 13 / 2\<close> for the loop value 10.
\<close>

definition effective_mul1 :: "u32 \<Rightarrow> u32 \<times> u32" where
  "effective_mul1 mul1 = (if mul1 \<noteq> 10 then (mul1, 1) else (13, 2))"

subsection \<open>The search as the specification words it\<close>

text \<open>
  The reference follows the text of the specification, over unbounded natural
  numbers: \<open>div2\<close> in \<open>[1, 16]\<close>, \<open>mul2\<close> in \<open>{8, ..., 14, 16, 20}\<close>,
  \<open>pll2Out = crystalHz / div2 * mul2\<close> within 18 MHz and 72 MHz, \<open>div1\<close> in
  \<open>[1, 16]\<close>, \<open>mul1\<close> in \<open>{4, 5, 6, 7, 8, 9, 6.5}\<close>,
  \<open>pll1Out = pll2Out / div1 * mul1\<close> (for 6.5: \<open>pll2Out / div1 * 13 / 2\<close>),
  over 18 MHz and at most the target. The text excludes a PLL1 output of exactly
  18 MHz; the flag \<open>incl\<close> says whether it is admitted, so that both readings of
  the bound can be compared with the code.
\<close>

datatype pll1mul = PLLMUL nat | PLLMUL6_5

definition spec_pll2 :: "nat \<Rightarrow> nat \<Rightarrow> nat \<Rightarrow> nat" where
  "spec_pll2 crystalHz div2 mul2 = crystalHz div div2 * mul2"

fun spec_pll1 :: "nat \<Rightarrow> nat \<Rightarrow> pll1mul \<Rightarrow> nat" where
  "spec_pll1 pll2Out div1 (PLLMUL m) = pll2Out div div1 * m"
| "spec_pll1 pll2Out div1 PLLMUL6_5 = pll2Out div div1 * 13 div 2"

fun spec_frequency :: "nat \<Rightarrow> nat \<times> nat \<times> nat \<times> pll1mul \<Rightarrow> nat" where
  "spec_frequency crystalHz (div2, mul2, div1, mul1) =
     spec_pll1 (spec_pll2 crystalHz div2 mul2) div1 mul1"

text \<open>The two range constraints on one combination.\<close>

fun spec_in_range :: "bool \<Rightarrow> nat \<Rightarrow> nat \<Rightarrow> nat \<times> nat \<times> nat \<times> pll1mul \<Rightarrow> bool" where
  "spec_in_range incl crystalHz targetHz (div2, mul2, div1, mul1) =
     (18000000 \<le> spec_pll2 crystalHz div2 mul2 \<and>
      spec_pll2 crystalHz div2 mul2 \<le> 72000000 \<and>
      (if incl then 18000000 \<le> spec_pll1 (spec_pll2 crystalHz div2 mul2) div1 mul1
       else 18000000 < spec_pll1 (spec_pll2 crystalHz div2 mul2) div1 mul1) \<and>
      spec_pll1 (spec_pll2 crystalHz div2 mul2) div1 mul1 \<le> targetHz)"

text \<open>All combinations of the grid, and those that satisfy both constraints.\<close>

definition spec_grid :: "(nat \<times> nat \<times> nat \<times> pll1mul) list" where
  "spec_grid =
     List.product [1..<17]
       (List.product [8, 9, 10, 11, 12, 13, 14, 16, 20]
          (List.product [1..<17]
             [PLLMUL 4, PLLMUL 5, PLLMUL 6, PLLMUL 7, PLLMUL 8, PLLMUL 9, PLLMUL6_5]))"

definition spec_combinations :: "bool \<Rightarrow> nat \<Rightarrow> nat \<Rightarrow> (nat \<times> nat \<times> nat \<times> pll1mul) list" where
  "spec_combinations incl crystalHz targetHz =
     filter (spec_in_range incl crystalHz targetHz) spec_grid"

text \<open>The frequencies that the feasible combinations reach.\<close>

definition spec_reachable :: "bool \<Rightarrow> nat \<Rightarrow> nat \<Rightarrow> nat list" where
  "spec_reachable incl crystalHz targetHz =
     map (spec_frequency crystalHz) (spec_combinations incl crystalHz targetHz)"

text \<open>The combination that a tuple of loop values stands for: 10 means 6.5.\<close>

fun to_spec :: "params \<Rightarrow> nat \<times> nat \<times> nat \<times> pll1mul" where
  "to_spec (div2, mul2, div1, mul1) =
     (unat div2, unat mul2, unat div1, if mul1 = 10 then PLLMUL6_5 else PLLMUL (unat mul1))"

subsection \<open>The sequences of accesses of pll\_start\<close>

text \<open>
  The accesses of a run up to each of the four waits, given the number of reads
  that found a flag clear (\<open>n1\<close>, \<open>n2\<close>, \<open>n3\<close>) and the values \<open>xs\<close> read from
  \<^verbatim>\<open>RCC->CFGR\<close> that did not show the switch.
\<close>

definition seq_HSE :: "stm32f10x \<Rightarrow> u32 \<Rightarrow> u32 \<Rightarrow> nat \<Rightarrow> (stmt \<times> access) list" where
  "seq_HSE k crystal frequency n1 =
     [(Enable_HSE, BB_Set RCC_CR RCC_CR_HSEON_bit),
      (Set_latency, Reg_Or FLASH_ACR
         (if frequency < 24000000 then 0 else if frequency < 48000000 then 1 else 2)),
      (Configure_PLL2, Reg_Or RCC_CFGR2 (cfgr2_operand k (search crystal frequency)))] @
     replicate n1 (Wait_HSE, BB_Read RCC_CR RCC_CR_HSERDY_bit False)"

definition seq_PLL2 :: "stm32f10x \<Rightarrow> u32 \<Rightarrow> u32 \<Rightarrow> nat \<Rightarrow> nat \<Rightarrow> (stmt \<times> access) list" where
  "seq_PLL2 k crystal frequency n1 n2 =
     seq_HSE k crystal frequency n1 @
     [(Wait_HSE, BB_Read RCC_CR RCC_CR_HSERDY_bit True),
      (Enable_PLL2, BB_Set RCC_CR RCC_CR_PLL2ON_bit),
      (Configure_PLL1, Reg_Or RCC_CFGR (cfgr_operand k (search crystal frequency)))] @
     replicate n2 (Wait_PLL2, BB_Read RCC_CR RCC_CR_PLL2RDY_bit False)"

definition seq_PLL ::
  "stm32f10x \<Rightarrow> u32 \<Rightarrow> u32 \<Rightarrow> nat \<Rightarrow> nat \<Rightarrow> nat \<Rightarrow> (stmt \<times> access) list" where
  "seq_PLL k crystal frequency n1 n2 n3 =
     seq_PLL2 k crystal frequency n1 n2 @
     [(Wait_PLL2, BB_Read RCC_CR RCC_CR_PLL2RDY_bit True),
      (Enable_PLL, BB_Set RCC_CR RCC_CR_PLLON_bit)] @
     replicate n3 (Wait_PLL, BB_Read RCC_CR RCC_CR_PLLRDY_bit False)"

definition seq_switch ::
  "stm32f10x \<Rightarrow> u32 \<Rightarrow> u32 \<Rightarrow> nat \<Rightarrow> nat \<Rightarrow> nat \<Rightarrow> u32 list \<Rightarrow> (stmt \<times> access) list" where
  "seq_switch k crystal frequency n1 n2 n3 xs =
     seq_PLL k crystal frequency n1 n2 n3 @
     [(Wait_PLL, BB_Read RCC_CR RCC_CR_PLLRDY_bit True),
      (Switch_SYSCLK, Reg_Or RCC_CFGR (RCC_CFGR_SW_PLL k))] @
     map (\<lambda>x. (Wait_switch, Reg_Read RCC_CFGR x)) xs"

subsection \<open>A concrete machine for running the model\<close>

text \<open>
  Concrete runs need values for the six masks and a hardware. The masks are
  built from the bit positions and field values of \<^verbatim>\<open>hdr_rcc.h\<close>
  (\<^verbatim>\<open>RCC_CFGR2_PREDIV1SRC_bit 16\<close>, \<^verbatim>\<open>RCC_CFGR_PLLSRC_bit 16\<close>,
  \<^verbatim>\<open>RCC_CFGR_PPRE1_bit 8\<close> with \<^verbatim>\<open>RCC_CFGR_PPRE1_DIV2_value 4\<close>,
  \<^verbatim>\<open>RCC_CFGR_SW_bit 0\<close> with \<^verbatim>\<open>RCC_CFGR_SW_PLL_value 2\<close>, \<^verbatim>\<open>RCC_CFGR_SWS_bit 2\<close>
  with \<^verbatim>\<open>RCC_CFGR_SWS_mask 3\<close> and \<^verbatim>\<open>RCC_CFGR_SWS_PLL_value 2\<close>).
\<close>

definition hdr_masks :: stm32f10x where
  "hdr_masks =
     \<lparr>RCC_CFGR2_PREDIV1SRC = push_bit 16 1,
      RCC_CFGR_PLLSRC = push_bit 16 1,
      RCC_CFGR_PPRE1_DIV2 = push_bit 8 4,
      RCC_CFGR_SW_PLL = push_bit 0 2,
      RCC_CFGR_SWS = push_bit 2 3,
      RCC_CFGR_SWS_PLL = push_bit 2 2\<rparr>"

text \<open>
  The simulated hardware reacts on every third access: each ready flag of
  \<^verbatim>\<open>RCC->CR\<close> then follows its enable bit (HSERDY follows HSEON, PLL2RDY follows
  PLL2ON, PLLRDY follows PLLON) and the SWS field of \<^verbatim>\<open>RCC->CFGR\<close> follows the
  SW field. The hidden state counts down to the next reaction.
\<close>

definition follow :: "nat \<Rightarrow> nat \<Rightarrow> u32 \<Rightarrow> u32" where
  "follow enable ready w = (if bit w enable then set_bit ready w else w)"

definition sim_hw :: "nat hardware" where
  "sim_hw = (\<lambda>(r, h).
     if h = 0 then
       (r(RCC_CR :=
            follow RCC_CR_HSEON_bit RCC_CR_HSERDY_bit
              (follow RCC_CR_PLL2ON_bit RCC_CR_PLL2RDY_bit
                 (follow RCC_CR_PLLON_bit RCC_CR_PLLRDY_bit (r RCC_CR))),
          RCC_CFGR := (r RCC_CFGR AND NOT (push_bit 2 3)) OR push_bit 2 (r RCC_CFGR AND 3)),
        2)
     else (r, h - 1))"

text \<open>
  A second simulated hardware raises the three ready flags and shows PLL in
  the SWS field after every access, whatever the program has enabled.
\<close>

definition prompt_hw :: "unit hardware" where
  "prompt_hw = (\<lambda>(r, h).
     (r(RCC_CR :=
          set_bit RCC_CR_HSERDY_bit
            (set_bit RCC_CR_PLL2RDY_bit (set_bit RCC_CR_PLLRDY_bit (r RCC_CR))),
        RCC_CFGR := (r RCC_CFGR AND NOT (push_bit 2 3)) OR push_bit 2 2),
      h))"

text \<open>
  \<open>responds n hw k\<close>: from every state of the peripherals, each of the four
  conditions that \<^verbatim>\<open>pll_start\<close> waits for is read as true within \<open>n\<close> reads.
\<close>

definition responds :: "nat \<Rightarrow> 'h hardware \<Rightarrow> stm32f10x \<Rightarrow> bool" where
  "responds n hw k \<longleftrightarrow>
     (\<forall>st. \<exists>j<n. bit (fst ((hw ^^ j) st) RCC_CR) RCC_CR_HSERDY_bit) \<and>
     (\<forall>st. \<exists>j<n. bit (fst ((hw ^^ j) st) RCC_CR) RCC_CR_PLL2RDY_bit) \<and>
     (\<forall>st. \<exists>j<n. bit (fst ((hw ^^ j) st) RCC_CR) RCC_CR_PLLRDY_bit) \<and>
     (\<forall>st. \<exists>j<n. fst ((hw ^^ j) st) RCC_CFGR AND RCC_CFGR_SWS k = RCC_CFGR_SWS_PLL k)"

text \<open>The machine after reset: all registers 0, no access made.\<close>

definition reset_machine :: "'h \<Rightarrow> 'h machine" where
  "reset_machine h = \<lparr>regs = (\<lambda>r. 0), hidden = h, trace = []\<rparr>"

subsection \<open>Kinds of accesses\<close>

definition sets_bit :: "nat \<Rightarrow> stmt \<times> access \<Rightarrow> bool" where
  "sets_bit n e \<longleftrightarrow> snd e = BB_Set RCC_CR n"

definition reads_set :: "nat \<Rightarrow> stmt \<times> access \<Rightarrow> bool" where
  "reads_set n e \<longleftrightarrow> snd e = BB_Read RCC_CR n True"

definition made_by :: "stmt \<Rightarrow> stmt \<times> access \<Rightarrow> bool" where
  "made_by l e \<longleftrightarrow> fst e = l"

definition writes_reg :: "reg \<Rightarrow> stmt \<times> access \<Rightarrow> bool" where
  "writes_reg r e \<longleftrightarrow> (case snd e of Reg_Or r' v \<Rightarrow> r' = r | _ \<Rightarrow> False)"

text \<open>The clock-enable steps: setting HSEON, PLL2ON or PLLON.\<close>

definition clock_enable :: "stmt \<times> access \<Rightarrow> bool" where
  "clock_enable e \<longleftrightarrow>
     sets_bit RCC_CR_HSEON_bit e \<or> sets_bit RCC_CR_PLL2ON_bit e \<or> sets_bit RCC_CR_PLLON_bit e"

text \<open>
  The steps that raise the clock of the core: enabling one of the two PLLs,
  and the statement that changes SYSCLK to the PLL.
\<close>

definition pll_step :: "stmt \<times> access \<Rightarrow> bool" where
  "pll_step e \<longleftrightarrow>
     sets_bit RCC_CR_PLL2ON_bit e \<or> sets_bit RCC_CR_PLLON_bit e \<or> made_by Switch_SYSCLK e"

section \<open>Properties\<close>

subsection \<open>The search visits the grid in loop order\<close>

lemma best_frequency_saved: "best_frequency (saved c t) = pll1_of c t"
  by (cases t) simp

lemma accepted_ge_18MHz: "accepted c f t \<Longrightarrow> 18000000 \<le> pll1_of c t"
  by (cases t) (simp add: not_less)

lemma accepted_le_frequency: "accepted c f t \<Longrightarrow> pll1_of c t \<le> f"
  by (cases t) (simp add: not_less)

lemma fold_concat_map: "fold f (concat (map g xs)) = fold (\<lambda>x. fold f (g x)) xs"
  by (induction xs) simp_all

lemma mul1_body_visit:
  assumes "\<not> (mul2 = 15 \<or> mul2 = 17 \<or> mul2 = 18 \<or> mul2 = 19)"
    and "\<not> (crystal div div2 * mul2 < 18000000 \<or> crystal div div2 * mul2 > 72000000)"
  shows "mul1_body frequency (crystal div div2 * mul2) div2 mul2 div1 mul1 =
         visit crystal frequency (div2, mul2, div1, mul1)"
  using assms by (auto simp: mul1_body_def visit_def Let_def fun_eq_iff)

lemma visit_rejected:
  assumes "mul2 = 15 \<or> mul2 = 17 \<or> mul2 = 18 \<or> mul2 = 19 \<or>
           crystal div div2 * mul2 < 18000000 \<or> crystal div div2 * mul2 > 72000000"
  shows "visit crystal frequency (div2, mul2, div1, mul1) = id"
  using assms by (auto simp: visit_def fun_eq_iff)

lemma mul2_body_visit:
  "mul2_body crystal frequency div2 mul2 =
     fold (visit crystal frequency)
       (concat (map (\<lambda>div1. map (\<lambda>mul1. (div2, mul2, div1, mul1)) (loop_values 4 10))
          (loop_values 1 16)))"
proof (cases "mul2 = 15 \<or> mul2 = 17 \<or> mul2 = 18 \<or> mul2 = 19 \<or>
           crystal div div2 * mul2 < 18000000 \<or> crystal div div2 * mul2 > 72000000")
  case True
  have "fold (visit crystal frequency)
       (concat (map (\<lambda>div1. map (\<lambda>mul1. (div2, mul2, div1, mul1)) (loop_values 4 10))
          (loop_values 1 16))) = id"
    by (rule fold_id) (use True in \<open>auto simp: visit_rejected\<close>)
  moreover have "mul2_body crystal frequency div2 mul2 = id"
    using True by (auto simp: mul2_body_def fun_eq_iff Let_def)
  ultimately show ?thesis by simp
next
  case False
  then have "mul2_body crystal frequency div2 mul2 =
      for_loop 1 16 (\<lambda>div1. for_loop 4 10 (\<lambda>mul1.
         mul1_body frequency (crystal div div2 * mul2) div2 mul2 div1 mul1))"
    by (auto simp: mul2_body_def fun_eq_iff Let_def)
  also have "\<dots> = for_loop 1 16 (\<lambda>div1. for_loop 4 10 (\<lambda>mul1.
         visit crystal frequency (div2, mul2, div1, mul1)))"
    using False by (simp add: mul1_body_visit)
  finally show ?thesis
    by (simp add: for_loop_def fold_concat_map fold_map comp_def)
qed

lemma search_grid: "search crystal frequency = fold (visit crystal frequency) grid best_init"
  by (simp add: search_def grid_def for_loop_def fold_concat_map mul2_body_visit)

lemma fold_visit_cases:
  "(fold (visit c f) xs b = b \<and>
      (\<forall>u\<in>set xs. accepted c f u \<longrightarrow> pll1_of c u \<le> best_frequency b)) \<or>
   (\<exists>t. fold (visit c f) xs b = saved c t \<and> first_best c f xs b t)"
proof (induction xs rule: rev_induct)
  case Nil
  then show ?case by simp
next
  case (snoc x xs)
  let ?r = "fold (visit c f) xs b"
  have step: "fold (visit c f) (xs @ [x]) b = visit c f x ?r" by simp
  from snoc.IH show ?case
  proof (elim disjE conjE exE)
    assume same: "?r = b"
      and le: "\<forall>u\<in>set xs. accepted c f u \<longrightarrow> pll1_of c u \<le> best_frequency b"
    show ?thesis
    proof (cases "accepted c f x \<and> best_frequency b < pll1_of c x")
      case True
      have "first_best c f (xs @ [x]) b x"
        unfolding first_best_def
        using True le by (intro exI [of _ xs] exI [of _ "[]"]) auto
      moreover have "fold (visit c f) (xs @ [x]) b = saved c x"
        using True same by (simp add: visit_def)
      ultimately show ?thesis by blast
    next
      case False
      then have "fold (visit c f) (xs @ [x]) b = b"
        using same by (auto simp: visit_def)
      moreover have "\<forall>u\<in>set (xs @ [x]). accepted c f u \<longrightarrow> pll1_of c u \<le> best_frequency b"
        using False le by auto
      ultimately show ?thesis by blast
    qed
  next
    fix t
    assume r: "?r = saved c t" and fb: "first_best c f xs b t"
    from fb obtain ys zs where xs: "xs = ys @ t # zs"
      and acc: "accepted c f t"
      and gt: "best_frequency b < pll1_of c t"
      and before: "\<forall>u\<in>set ys. accepted c f u \<longrightarrow> pll1_of c u < pll1_of c t"
      and after: "\<forall>u\<in>set zs. accepted c f u \<longrightarrow> pll1_of c u \<le> pll1_of c t"
      unfolding first_best_def by blast
    have bf: "best_frequency (saved c t) = pll1_of c t"
      by (rule best_frequency_saved)
    show ?thesis
    proof (cases "accepted c f x \<and> pll1_of c t < pll1_of c x")
      case True
      have "\<forall>u\<in>set xs. accepted c f u \<longrightarrow> pll1_of c u < pll1_of c x"
        using True before after xs by fastforce
      then have "first_best c f (xs @ [x]) b x"
        unfolding first_best_def
        using True gt by (intro exI [of _ xs] exI [of _ "[]"]) auto
      moreover have "fold (visit c f) (xs @ [x]) b = saved c x"
        using True r bf by (simp add: visit_def)
      ultimately show ?thesis by blast
    next
      case False
      then have "fold (visit c f) (xs @ [x]) b = saved c t"
        using r bf by (auto simp: visit_def)
      moreover have "first_best c f (xs @ [x]) b t"
        unfolding first_best_def
        using False acc gt before after xs
        by (intro exI [of _ ys] exI [of _ "zs @ [x]"]) auto
      ultimately show ?thesis by blast
    qed
  qed
qed

lemma first_best_mem: "first_best c f xs b t \<Longrightarrow> t \<in> set xs \<and> accepted c f t"
  unfolding first_best_def by auto

lemma search_infeasible:
  assumes "\<not> feasible c f"
  shows "search c f = best_init"
proof -
  have "\<not> first_best c f grid best_init t" for t
    using assms first_best_mem [of c f grid best_init t] unfolding feasible_def by blast
  with fold_visit_cases [of c f grid best_init] show ?thesis
    by (auto simp: search_grid)
qed

lemma search_feasible:
  assumes "feasible c f"
  shows "\<exists>t. search c f = saved c t \<and> first_best c f grid best_init t"
proof -
  from assms obtain u where u: "u \<in> set grid" "accepted c f u"
    by (auto simp: feasible_def)
  then have "18000000 \<le> pll1_of c u" by (simp add: accepted_ge_18MHz)
  then have "\<not> pll1_of c u \<le> best_frequency best_init"
    by (simp add: best_init_def word_le_nat_alt)
  with u fold_visit_cases [of c f grid best_init] show ?thesis
    unfolding search_grid by blast
qed


subsection \<open>The grid and the exact formulas\<close>

lemma loop_values_1_16:
  "loop_values 1 16 = [1, 2, 3, 4, 5, 6, 7, 8, 9, 10, 11, 12, 13, 14, 15, 16]"
  by (simp add: loop_values_def upt_rec)

lemma loop_values_8_20:
  "loop_values 8 20 = [8, 9, 10, 11, 12, 13, 14, 15, 16, 17, 18, 19, 20]"
  by (simp add: loop_values_def upt_rec)

lemma loop_values_4_10: "loop_values 4 10 = [4, 5, 6, 7, 8, 9, 10]"
  by (simp add: loop_values_def upt_rec)

lemma set_loop_values: "set (loop_values lo hi) = of_nat ` {lo..hi}"
  by (auto simp: loop_values_def)

lemma set_grid:
  "set grid = {(div2, mul2, div1, mul1).
     div2 \<in> set (loop_values 1 16) \<and> mul2 \<in> set (loop_values 8 20) \<and>
     div1 \<in> set (loop_values 1 16) \<and> mul1 \<in> set (loop_values 4 10)}"
  by (auto simp: grid_def)

lemma in_grid_iff:
  "(div2, mul2, div1, mul1) \<in> set grid \<longleftrightarrow>
     div2 \<in> set (loop_values 1 16) \<and> mul2 \<in> set (loop_values 8 20) \<and>
     div1 \<in> set (loop_values 1 16) \<and> mul1 \<in> set (loop_values 4 10)"
  by (simp add: set_grid)

lemma in_loop_values_unat:
  assumes "hi < 2 ^ 32"
  shows "w \<in> set (loop_values lo hi) \<longleftrightarrow> lo \<le> unat w \<and> unat w \<le> hi"
proof
  assume "w \<in> set (loop_values lo hi)"
  then obtain n where n: "w = of_nat n" "lo \<le> n" "n \<le> hi"
    by (auto simp: set_loop_values)
  with assms have "unat w = n"
    by (simp add: unat_of_nat)
  with n show "lo \<le> unat w \<and> unat w \<le> hi" by simp
next
  assume "lo \<le> unat w \<and> unat w \<le> hi"
  then have "unat w \<in> {lo..hi}" by simp
  moreover have "w = of_nat (unat w)" by simp
  ultimately have "w \<in> (of_nat ` {lo..hi} :: u32 set)"
    by (rule rev_image_eqI)
  then show "w \<in> set (loop_values lo hi)"
    by (simp only: set_loop_values)
qed


lemma in_grid_unat:
  "(div2, mul2, div1, mul1) \<in> set grid \<longleftrightarrow>
     (1 \<le> unat div2 \<and> unat div2 \<le> 16) \<and> (8 \<le> unat mul2 \<and> unat mul2 \<le> 20) \<and>
     (1 \<le> unat div1 \<and> unat div1 \<le> 16) \<and> (4 \<le> unat mul1 \<and> unat mul1 \<le> 10)"
  by (simp add: in_grid_iff in_loop_values_unat)

lemma unat_mult_small:
  fixes x y :: u32
  shows "unat x * unat y < 4294967296 \<Longrightarrow> unat (x * y) = unat x * unat y"
  using unat_mult_lem [of x y] by simp

lemma unat_pll2:
  fixes crystal div2 mul2 :: u32
  assumes "unat crystal \<le> 214748364" "unat mul2 \<le> 20"
  shows "unat (crystal div div2 * mul2) = unat crystal div unat div2 * unat mul2"
proof -
  have "unat crystal div unat div2 \<le> 214748364"
    using assms(1) by (meson div_le_dividend le_trans)
  then have "unat crystal div unat div2 * unat mul2 \<le> 214748364 * 20"
    using assms(2) by (rule mult_le_mono)
  then have "unat (crystal div div2) * unat mul2 < 4294967296"
    by (simp add: unat_div)
  then show ?thesis
    by (simp add: unat_mult_small unat_div)
qed

lemma unat_pll1:
  fixes pll2 div1 mul1 :: u32
  assumes "unat pll2 \<le> 72000000" "unat mul1 \<le> 10"
  shows "unat (pll2 div div1 * mul1) = unat pll2 div unat div1 * unat mul1"
proof -
  have "unat pll2 div unat div1 \<le> 72000000"
    using assms(1) by (meson div_le_dividend le_trans)
  then have "unat pll2 div unat div1 * unat mul1 \<le> 72000000 * 10"
    using assms(2) by (rule mult_le_mono)
  then have "unat (pll2 div div1) * unat mul1 < 4294967296"
    by (simp add: unat_div)
  then show ?thesis
    by (simp add: unat_mult_small unat_div)
qed

lemma unat_pll1_6_5:
  fixes pll2 div1 :: u32
  assumes "unat pll2 \<le> 72000000"
  shows "unat (pll2 div div1 * 13 div 2) = unat pll2 div unat div1 * 13 div 2"
proof -
  have "unat pll2 div unat div1 \<le> 72000000"
    using assms(1) by (meson div_le_dividend le_trans)
  then have "unat (pll2 div div1) * unat (13 :: u32) < 4294967296"
    by (simp add: unat_div)
  then have "unat (pll2 div div1 * 13) = unat pll2 div unat div1 * 13"
    by (simp add: unat_mult_small unat_div)
  then show ?thesis
    by (simp add: unat_div)
qed

lemma in_spec_grid:
  "(div2, mul2, div1, mul1) \<in> set spec_grid \<longleftrightarrow>
     (1 \<le> div2 \<and> div2 \<le> 16) \<and> mul2 \<in> {8, 9, 10, 11, 12, 13, 14, 16, 20} \<and>
     (1 \<le> div1 \<and> div1 \<le> 16) \<and>
     mul1 \<in> {PLLMUL 4, PLLMUL 5, PLLMUL 6, PLLMUL 7, PLLMUL 8, PLLMUL 9, PLLMUL6_5}"
proof -
  have "set [1..<17] = {n. 1 \<le> n \<and> n \<le> 16}"
    by (simp only: set_upt) auto
  then show ?thesis
    unfolding spec_grid_def by (simp only: set_product mem_Sigma_iff) simp
qed

lemma in_spec_combinations:
  "x \<in> set (spec_combinations incl c t) \<longleftrightarrow> x \<in> set spec_grid \<and> spec_in_range incl c t x"
  by (simp add: spec_combinations_def)


lemma word_eq_unat_numeral:
  fixes w :: u32
  shows "w = 10 \<longleftrightarrow> unat w = 10" "w = 15 \<longleftrightarrow> unat w = 15" "w = 17 \<longleftrightarrow> unat w = 17"
    "w = 18 \<longleftrightarrow> unat w = 18" "w = 19 \<longleftrightarrow> unat w = 19" "w = 20 \<longleftrightarrow> unat w = 20"
  by (simp_all add: word_eq_iff_unsigned [where ?'a = nat])

lemma unat_pll2_of:
  assumes "(div2, mul2, div1, mul1) \<in> set grid" "unat c \<le> 214748364"
  shows "unat (pll2_of c (div2, mul2, div1, mul1)) = spec_pll2 (unat c) (unat div2) (unat mul2)"
  using assms by (simp add: in_grid_unat unat_pll2 spec_pll2_def)

lemma unat_pll1_of:
  assumes "(div2, mul2, div1, mul1) \<in> set grid" "unat c \<le> 214748364"
    and "unat (pll2_of c (div2, mul2, div1, mul1)) \<le> 72000000"
  shows "unat (pll1_of c (div2, mul2, div1, mul1)) =
         spec_frequency (unat c) (to_spec (div2, mul2, div1, mul1))"
proof -
  have p2: "unat (c div div2 * mul2) = spec_pll2 (unat c) (unat div2) (unat mul2)"
    using unat_pll2_of [OF assms(1,2)] by simp
  have le: "unat (c div div2 * mul2) \<le> 72000000"
    using assms(3) by simp
  have m1: "unat mul1 \<le> 10"
    using assms(1) by (simp add: in_grid_unat)
  show ?thesis
  proof (cases "mul1 = 10")
    case True
    then show ?thesis
      using unat_pll1_6_5 [OF le, of div1] p2 by simp
  next
    case False
    then show ?thesis
      using unat_pll1 [OF le m1, of div1] p2 by simp
  qed
qed

lemma to_spec_in_grid:
  assumes "(div2, mul2, div1, mul1) \<in> set grid"
  shows "to_spec (div2, mul2, div1, mul1) \<in> set spec_grid \<longleftrightarrow>
         \<not> (mul2 = 15 \<or> mul2 = 17 \<or> mul2 = 18 \<or> mul2 = 19)"
proof -
  from assms have r: "8 \<le> unat mul2" "unat mul2 \<le> 20" "4 \<le> unat mul1" "unat mul1 \<le> 10"
    "1 \<le> unat div2" "unat div2 \<le> 16" "1 \<le> unat div1" "unat div1 \<le> 16"
    by (simp_all add: in_grid_unat)
  have "unat mul2 \<in> {8, 9, 10, 11, 12, 13, 14, 16, 20} \<longleftrightarrow>
        \<not> (unat mul2 = 15 \<or> unat mul2 = 17 \<or> unat mul2 = 18 \<or> unat mul2 = 19)"
    using r(1,2) by simp arith
  moreover have "mul1 \<noteq> 10 \<Longrightarrow>
     PLLMUL (unat mul1) \<in> {PLLMUL 4, PLLMUL 5, PLLMUL 6, PLLMUL 7, PLLMUL 8, PLLMUL 9, PLLMUL6_5}"
    using r(3,4) by (simp add: word_eq_unat_numeral) arith
  ultimately show ?thesis
    using r by (auto simp: in_spec_grid word_eq_unat_numeral)
qed

lemma accepted_iff_spec:
  assumes "t \<in> set grid" "unat c \<le> 214748364"
  shows "accepted c f t \<longleftrightarrow> to_spec t \<in> set (spec_combinations True (unat c) (unat f))"
proof -
  obtain div2 mul2 div1 mul1 where t: "t = (div2, mul2, div1, mul1)"
    by (cases t)
  have p2: "unat (pll2_of c t) = spec_pll2 (unat c) (unat div2) (unat mul2)"
    using unat_pll2_of assms unfolding t by blast
  show ?thesis
  proof (cases "unat (pll2_of c t) \<le> 72000000")
    case True
    have p1: "unat (pll1_of c t) = spec_frequency (unat c) (to_spec t)"
      using unat_pll1_of assms True unfolding t by blast
    have "accepted c f t \<longleftrightarrow>
          \<not> (mul2 = 15 \<or> mul2 = 17 \<or> mul2 = 18 \<or> mul2 = 19) \<and>
          18000000 \<le> unat (pll2_of c t) \<and> unat (pll2_of c t) \<le> 72000000 \<and>
          18000000 \<le> unat (pll1_of c t) \<and> unat (pll1_of c t) \<le> unat f"
      unfolding t accepted.simps by (simp add: word_less_nat_alt not_less)
    also have "\<dots> \<longleftrightarrow> to_spec t \<in> set spec_grid \<and>
          spec_in_range True (unat c) (unat f) (to_spec t)"
      using to_spec_in_grid [of div2 mul2 div1 mul1] assms(1) p1 p2
      unfolding t by auto
    finally show ?thesis
      by (simp add: in_spec_combinations)
  next
    case False
    then have "\<not> accepted c f t"
      unfolding t accepted.simps by (simp add: word_less_nat_alt not_less)
    moreover have "\<not> spec_in_range True (unat c) (unat f) (to_spec t)"
      using False p2 unfolding t by simp
    ultimately show ?thesis
      by (simp add: in_spec_combinations)
  qed
qed

lemma to_spec_onto:
  assumes "x \<in> set spec_grid"
  shows "\<exists>t\<in>set grid. to_spec t = x"
proof -
  obtain div2 mul2 div1 mul1 where x: "x = (div2, mul2, div1, mul1)"
    by (cases x)
  from assms have r: "1 \<le> div2" "div2 \<le> 16" "mul2 \<in> {8, 9, 10, 11, 12, 13, 14, 16, 20}"
    "1 \<le> div1" "div1 \<le> 16"
    "mul1 \<in> {PLLMUL 4, PLLMUL 5, PLLMUL 6, PLLMUL 7, PLLMUL 8, PLLMUL 9, PLLMUL6_5}"
    unfolding x by (simp_all add: in_spec_grid)
  define w where "w = (case mul1 of PLLMUL m \<Rightarrow> (of_nat m :: u32) | PLLMUL6_5 \<Rightarrow> 10)"
  have d2: "unat (of_nat div2 :: u32) = div2" and d1: "unat (of_nat div1 :: u32) = div1"
    and m2: "unat (of_nat mul2 :: u32) = mul2"
    using r by (auto simp: unat_of_nat)
  have w: "4 \<le> unat w \<and> unat w \<le> 10 \<and> (if w = 10 then PLLMUL6_5 else PLLMUL (unat w)) = mul1"
    using r(6) by (auto simp: w_def)
  have "(of_nat div2, of_nat mul2, of_nat div1, w) \<in> set grid"
    using r w d2 d1 m2 by (auto simp: in_grid_unat)
  moreover have "to_spec (of_nat div2, of_nat mul2, of_nat div1, w) = x"
    using w d2 d1 m2 by (simp add: x)
  ultimately show ?thesis by blast
qed

subsection \<open>The selected tuple\<close>

lemma sorted_wrt_concat_map:
  assumes "sorted_wrt R xs"
    and "\<And>x. x \<in> set xs \<Longrightarrow> sorted_wrt S (g x)"
    and "\<And>x y a b. R x y \<Longrightarrow> a \<in> set (g x) \<Longrightarrow> b \<in> set (g y) \<Longrightarrow> S a b"
  shows "sorted_wrt S (concat (map g xs))"
  using assms by (induction xs) (auto simp: sorted_wrt_append)

lemma sorted_loop_values: "sorted_wrt (<) (loop_values 1 16)"
  "sorted_wrt (<) (loop_values 8 20)" "sorted_wrt (<) (loop_values 4 10)"
  unfolding loop_values_1_16 loop_values_8_20 loop_values_4_10 by simp_all

lemma sorted_grid: "sorted_wrt loop_less grid"
  unfolding grid_def
proof (intro sorted_wrt_concat_map [where R = "(<)"] sorted_loop_values)
  fix div2 mul2 div1 :: u32
  show "sorted_wrt loop_less (map (\<lambda>mul1. (div2, mul2, div1, mul1)) (loop_values 4 10))"
    unfolding sorted_wrt_map
    by (rule sorted_wrt_mono_rel [OF _ sorted_loop_values(3)]) simp
qed auto

lemma search_first_max:
  assumes "feasible c f"
  shows "\<exists>ys t zs. grid = ys @ t # zs \<and> search c f = saved c t \<and> accepted c f t \<and>
    (\<forall>u\<in>set ys. accepted c f u \<longrightarrow> pll1_of c u < pll1_of c t) \<and>
    (\<forall>u\<in>set zs. accepted c f u \<longrightarrow> pll1_of c u \<le> pll1_of c t)"
  using search_feasible [OF assms] unfolding first_best_def by blast

lemma best_params_saved: "best_params (saved c t) = t"
  by (cases t) (simp add: best_params_def)

lemma search_selected:
  assumes "feasible c f"
  shows "best_params (search c f) \<in> set grid"
    and "accepted c f (best_params (search c f))"
    and "pll1_of c (best_params (search c f)) = best_frequency (search c f)"
    and "search c f = saved c (best_params (search c f))"
proof -
  from search_first_max [OF assms] obtain ys t zs where
    "grid = ys @ t # zs" "search c f = saved c t" "accepted c f t"
    by blast
  moreover from this have "t \<in> set grid" by (simp only: in_set_conv_decomp) blast
  ultimately show "best_params (search c f) \<in> set grid" "accepted c f (best_params (search c f))"
    "pll1_of c (best_params (search c f)) = best_frequency (search c f)"
    "search c f = saved c (best_params (search c f))"
    by (simp_all add: best_params_saved best_frequency_saved)
qed

lemma search_upper_bound:
  assumes "u \<in> set grid" "accepted c f u"
  shows "pll1_of c u \<le> best_frequency (search c f)"
proof -
  from assms have "feasible c f" by (auto simp: feasible_def)
  from search_first_max [OF this] obtain ys t zs where
    g: "grid = ys @ t # zs" and s: "search c f = saved c t"
    and b: "\<forall>u\<in>set ys. accepted c f u \<longrightarrow> pll1_of c u < pll1_of c t"
    and a: "\<forall>u\<in>set zs. accepted c f u \<longrightarrow> pll1_of c u \<le> pll1_of c t"
    by blast
  from assms(1) have "u \<in> set (ys @ t # zs)" unfolding g .
  then consider "u \<in> set ys" | "u = t" | "u \<in> set zs" by auto
  then show ?thesis
    using a b assms(2) s by cases (auto simp: best_frequency_saved less_imp_le)
qed

lemma search_first:
  assumes "u \<in> set grid" "accepted c f u" "pll1_of c u = best_frequency (search c f)"
  shows "loop_le (best_params (search c f)) u"
proof -
  from assms have "feasible c f" by (auto simp: feasible_def)
  from search_first_max [OF this] obtain ys t zs where
    g: "grid = ys @ t # zs" and s: "search c f = saved c t"
    and b: "\<forall>u\<in>set ys. accepted c f u \<longrightarrow> pll1_of c u < pll1_of c t"
    by blast
  from sorted_grid have "sorted_wrt loop_less (ys @ t # zs)" unfolding g .
  then have z: "\<forall>v\<in>set zs. loop_less t v"
    by (simp add: sorted_wrt_append)
  from assms(1) have "u \<in> set (ys @ t # zs)" unfolding g .
  then consider "u \<in> set ys" | "u = t" | "u \<in> set zs" by auto
  then show ?thesis
  proof cases
    case 1
    with b assms(2,3) s show ?thesis by (auto simp: best_frequency_saved)
  next
    case 2
    with s show ?thesis by (simp add: loop_le_def best_params_saved)
  next
    case 3
    with z s show ?thesis by (simp add: loop_le_def best_params_saved)
  qed
qed

subsection \<open>The trace of pll\_start\<close>

lemma trace_tick: "trace (tick hw l a s) = trace s @ [(l, a)]"
  by (simp add: tick_def split: prod.splits)

lemma trace_bb_set: "trace (bb_set hw l r n s) = trace s @ [(l, BB_Set r n)]"
  by (simp add: bb_set_def trace_tick)

lemma trace_reg_or: "trace (reg_or hw l r v s) = trace s @ [(l, Reg_Or r v)]"
  by (simp add: reg_or_def trace_tick)

lemma trace_flash_latency:
  "trace (flash_latency hw f s) =
     trace s @ [(Set_latency, Reg_Or FLASH_ACR
       (if f < 24000000 then 0 else if f < 48000000 then 1 else 2))]"
  by (simp add: flash_latency_def trace_reg_or)

lemma wait_bb_trace:
  "wait_bb fuel hw l r n s = (ok, s') \<Longrightarrow>
     \<exists>m. trace s' = trace s @ replicate m (l, BB_Read r n False) @
            (if ok then [(l, BB_Read r n True)] else [])"
proof (induction fuel arbitrary: s)
  case 0
  then show ?case by auto
next
  case (Suc fuel)
  show ?case
  proof (cases "bit (regs s r) n")
    case True
    with Suc.prems have "ok" "s' = tick hw l (BB_Read r n True) s"
      by (auto simp: bb_read_def)
    then show ?thesis
      by (intro exI [of _ 0]) (simp add: trace_tick)
  next
    case False
    with Suc.prems have "wait_bb fuel hw l r n (tick hw l (BB_Read r n False) s) = (ok, s')"
      by (auto simp: bb_read_def)
    from Suc.IH [OF this] obtain m where
      "trace s' = trace s @ [(l, BB_Read r n False)] @ replicate m (l, BB_Read r n False) @
            (if ok then [(l, BB_Read r n True)] else [])"
      by (auto simp: trace_tick)
    then show ?thesis
      by (intro exI [of _ "Suc m"]) simp
  qed
qed

lemma wait_field_trace:
  "wait_field fuel hw l r m v s = (ok, s') \<Longrightarrow>
     \<exists>xs ys. trace s' = trace s @ map (\<lambda>x. (l, Reg_Read r x)) (xs @ ys) \<and>
       (\<forall>x\<in>set xs. x AND m \<noteq> v) \<and> (\<forall>y\<in>set ys. y AND m = v) \<and>
       length ys = (if ok then 1 else 0)"
proof (induction fuel arbitrary: s)
  case 0
  then show ?case by (auto intro: exI [of _ "[]"])
next
  case (Suc fuel)
  show ?case
  proof (cases "regs s r AND m = v")
    case True
    with Suc.prems have "ok" "s' = tick hw l (Reg_Read r (regs s r)) s"
      by (auto simp: reg_read_def)
    with True show ?thesis
      by (intro exI [of _ "[]"] exI [of _ "[regs s r]"]) (simp add: trace_tick)
  next
    case False
    with Suc.prems have
      "wait_field fuel hw l r m v (tick hw l (Reg_Read r (regs s r)) s) = (ok, s')"
      by (auto simp: reg_read_def)
    from Suc.IH [OF this] obtain xs ys where
      tr: "trace s' = trace (tick hw l (Reg_Read r (regs s r)) s) @
             map (\<lambda>x. (l, Reg_Read r x)) (xs @ ys)"
      and xs: "\<forall>x\<in>set xs. x AND m \<noteq> v"
      and ys: "\<forall>y\<in>set ys. y AND m = v" "length ys = (if ok then 1 else 0)"
      by blast
    from tr have "trace s' = trace s @ map (\<lambda>x. (l, Reg_Read r x)) ((regs s r # xs) @ ys)"
      by (simp add: trace_tick)
    moreover have "\<forall>x\<in>set (regs s r # xs). x AND m \<noteq> v"
      using False xs by simp
    ultimately show ?thesis
      using ys by blast
  qed
qed

lemma pll_start_shape:
  "(fst (pll_start fuel hw k c f s) = None \<and>
        ((\<exists>n1. accesses fuel hw k c f s = seq_HSE k c f n1) \<or>
         (\<exists>n1 n2. accesses fuel hw k c f s = seq_PLL2 k c f n1 n2) \<or>
         (\<exists>n1 n2 n3. accesses fuel hw k c f s = seq_PLL k c f n1 n2 n3) \<or>
         (\<exists>n1 n2 n3 xs. accesses fuel hw k c f s = seq_switch k c f n1 n2 n3 xs \<and>
            (\<forall>x\<in>set xs. x AND RCC_CFGR_SWS k \<noteq> RCC_CFGR_SWS_PLL k)))) \<or>
     (fst (pll_start fuel hw k c f s) = Some (best_frequency (search c f)) \<and>
        (\<exists>n1 n2 n3 xs y. accesses fuel hw k c f s = seq_switch k c f n1 n2 n3 xs @ [(Wait_switch, Reg_Read RCC_CFGR y)] \<and>
            (\<forall>x\<in>set xs. x AND RCC_CFGR_SWS k \<noteq> RCC_CFGR_SWS_PLL k) \<and>
            y AND RCC_CFGR_SWS k = RCC_CFGR_SWS_PLL k))"
proof -
  define out where "out = pll_start fuel hw k c f s"
  define tr where "tr = accesses fuel hw k c f s"
  define b where "b = search c f"
  define s3 where "s3 = reg_or hw Configure_PLL2 RCC_CFGR2 (cfgr2_operand k b)
     (flash_latency hw f (bb_set hw Enable_HSE RCC_CR RCC_CR_HSEON_bit s))"
  have t3: "trace s3 = trace s @ seq_HSE k c f 0"
    by (simp add: s3_def b_def seq_HSE_def trace_reg_or trace_flash_latency trace_bb_set)
  obtain ok1 s4 where w1: "wait_bb fuel hw Wait_HSE RCC_CR RCC_CR_HSERDY_bit s3 = (ok1, s4)"
    by (cases "wait_bb fuel hw Wait_HSE RCC_CR RCC_CR_HSERDY_bit s3")
  from wait_bb_trace [OF w1] t3 obtain n1 where
    t4: "trace s4 = trace s @ seq_HSE k c f n1 @
           (if ok1 then [(Wait_HSE, BB_Read RCC_CR RCC_CR_HSERDY_bit True)] else [])"
    by (auto simp: seq_HSE_def)
  show ?thesis
  proof (cases ok1)
    case False
    then have "out = (None, s4)"
      using w1 by (simp add: out_def pll_start_def Let_def s3_def b_def)
    with False t4 show ?thesis
      unfolding accesses_def out_def [symmetric] by auto
  next
    case ok1: True
    define s6 where "s6 = reg_or hw Configure_PLL1 RCC_CFGR (cfgr_operand k b)
       (bb_set hw Enable_PLL2 RCC_CR RCC_CR_PLL2ON_bit s4)"
    have t6: "trace s6 = trace s @ seq_PLL2 k c f n1 0"
      using ok1 t4 by (simp add: s6_def b_def seq_PLL2_def trace_reg_or trace_bb_set)
    obtain ok2 s7 where w2: "wait_bb fuel hw Wait_PLL2 RCC_CR RCC_CR_PLL2RDY_bit s6 = (ok2, s7)"
      by (cases "wait_bb fuel hw Wait_PLL2 RCC_CR RCC_CR_PLL2RDY_bit s6")
    from wait_bb_trace [OF w2] t6 obtain n2 where
      t7: "trace s7 = trace s @ seq_PLL2 k c f n1 n2 @
             (if ok2 then [(Wait_PLL2, BB_Read RCC_CR RCC_CR_PLL2RDY_bit True)] else [])"
      by (auto simp: seq_PLL2_def)
    show ?thesis
    proof (cases ok2)
      case False
      then have "out = (None, s7)"
        using w1 ok1 w2 by (simp add: out_def pll_start_def Let_def s3_def s6_def b_def)
      with False t7 show ?thesis
        unfolding accesses_def out_def [symmetric] by auto
    next
      case ok2: True
      define s8 where "s8 = bb_set hw Enable_PLL RCC_CR RCC_CR_PLLON_bit s7"
      have t8: "trace s8 = trace s @ seq_PLL k c f n1 n2 0"
        using ok2 t7 by (simp add: s8_def seq_PLL_def trace_bb_set)
      obtain ok3 s9 where w3: "wait_bb fuel hw Wait_PLL RCC_CR RCC_CR_PLLRDY_bit s8 = (ok3, s9)"
        by (cases "wait_bb fuel hw Wait_PLL RCC_CR RCC_CR_PLLRDY_bit s8")
      from wait_bb_trace [OF w3] t8 obtain n3 where
        t9: "trace s9 = trace s @ seq_PLL k c f n1 n2 n3 @
               (if ok3 then [(Wait_PLL, BB_Read RCC_CR RCC_CR_PLLRDY_bit True)] else [])"
        by (auto simp: seq_PLL_def)
      show ?thesis
      proof (cases ok3)
        case False
        then have "out = (None, s9)"
          using w1 ok1 w2 ok2 w3
          by (simp add: out_def pll_start_def Let_def s3_def s6_def s8_def b_def)
        with False t9 show ?thesis
          unfolding accesses_def out_def [symmetric] by auto
      next
        case ok3: True
        define s10 where "s10 = reg_or hw Switch_SYSCLK RCC_CFGR (RCC_CFGR_SW_PLL k) s9"
        have t10: "trace s10 = trace s @ seq_switch k c f n1 n2 n3 []"
          using ok3 t9 by (simp add: s10_def seq_switch_def trace_reg_or)
        obtain ok4 s11 where w4:
          "wait_field fuel hw Wait_switch RCC_CFGR (RCC_CFGR_SWS k) (RCC_CFGR_SWS_PLL k) s10
             = (ok4, s11)"
          by (cases "wait_field fuel hw Wait_switch RCC_CFGR (RCC_CFGR_SWS k)
                       (RCC_CFGR_SWS_PLL k) s10")
        from wait_field_trace [OF w4] t10 obtain xs ys where
          t11: "trace s11 = trace s @ seq_switch k c f n1 n2 n3 xs @
                  map (\<lambda>x. (Wait_switch, Reg_Read RCC_CFGR x)) ys"
          and xs: "\<forall>x\<in>set xs. x AND RCC_CFGR_SWS k \<noteq> RCC_CFGR_SWS_PLL k"
          and ys: "\<forall>y\<in>set ys. y AND RCC_CFGR_SWS k = RCC_CFGR_SWS_PLL k"
            "length ys = (if ok4 then 1 else 0)"
          by (auto simp: seq_switch_def)
        show ?thesis
        proof (cases ok4)
          case False
          then have "out = (None, s11)"
            using w1 ok1 w2 ok2 w3 ok3 w4
            by (simp add: out_def pll_start_def Let_def s3_def s6_def s8_def s10_def b_def)
          moreover from False ys have "ys = []" by simp
          ultimately have "fst out = None" "drop (length (trace s)) (trace (snd out)) =
              seq_switch k c f n1 n2 n3 xs"
            using t11 by simp_all
          with xs show ?thesis
            unfolding accesses_def out_def [symmetric] by blast
        next
          case True
          then have o: "out = (Some (best_frequency (search c f)), s11)"
            using w1 ok1 w2 ok2 w3 ok3 w4
            by (simp add: out_def pll_start_def Let_def s3_def s6_def s8_def s10_def b_def)
          from True ys obtain y where y: "ys = [y]"
            by (cases ys) auto
          with ys have "y AND RCC_CFGR_SWS k = RCC_CFGR_SWS_PLL k" by simp
          with o t11 xs y show ?thesis
            unfolding accesses_def out_def [symmetric] by auto
        qed
      qed
    qed
  qed
qed

lemma before_replicate:
  "\<not> Q e \<Longrightarrow> \<not> P e \<Longrightarrow> before P Q (replicate n e @ xs) = before P Q xs"
  by (induction n) simp_all

lemma before_replicate_end: "\<not> Q e \<Longrightarrow> before P Q (replicate n e)"
  by (induction n) simp_all

lemma before_map:
  "(\<And>x. \<not> Q (g x)) \<Longrightarrow> (\<And>x. \<not> P (g x)) \<Longrightarrow> before P Q (map g xs @ ys) = before P Q ys"
  by (induction xs) simp_all

lemma before_map_end: "(\<And>x. \<not> Q (g x)) \<Longrightarrow> before P Q (map g xs)"
  by (induction xs) simp_all

lemmas seq_defs = seq_HSE_def seq_PLL2_def seq_PLL_def seq_switch_def

lemmas kind_defs = sets_bit_def reads_set_def made_by_def writes_reg_def clock_enable_def
  pll_step_def

lemmas bit_defs = RCC_CR_PLL2RDY_bit_def RCC_CR_PLL2ON_bit_def RCC_CR_PLLRDY_bit_def
  RCC_CR_PLLON_bit_def RCC_CR_HSERDY_bit_def RCC_CR_HSEON_bit_def

lemmas before_simps = before_replicate before_replicate_end before_map before_map_end

lemma sim_run_result:
  "fst (pll_start 9 sim_hw hdr_masks 900000 18000000 (reset_machine 0)) = Some 18000000"
  by code_simp

lemma sim_run_accesses:
  "accesses 9 sim_hw hdr_masks 900000 18000000 (reset_machine 0) =
     [(Enable_HSE, BB_Set RCC_CR 16), (Set_latency, Reg_Or FLASH_ACR 0),
      (Configure_PLL2, Reg_Or RCC_CFGR2 69379),
      (Wait_HSE, BB_Read RCC_CR 17 True), (Enable_PLL2, BB_Set RCC_CR 26),
      (Configure_PLL1, Reg_Or RCC_CFGR 590848),
      (Wait_PLL2, BB_Read RCC_CR 27 False), (Wait_PLL2, BB_Read RCC_CR 27 True),
      (Enable_PLL, BB_Set RCC_CR 24), (Wait_PLL, BB_Read RCC_CR 25 False),
      (Wait_PLL, BB_Read RCC_CR 25 True), (Switch_SYSCLK, Reg_Or RCC_CFGR 2),
      (Wait_switch, Reg_Read RCC_CFGR 590850),
      (Wait_switch, Reg_Read RCC_CFGR 590858)]"
  by code_simp

lemma state_tick: "(regs (tick hw l a s), hidden (tick hw l a s)) = hw (regs s, hidden s)"
  by (simp add: tick_def split: prod.splits)

lemma wait_bb_responds:
  "\<exists>j<n. bit (fst ((hw ^^ j) (regs s, hidden s)) r) b \<Longrightarrow> fst (wait_bb n hw l r b s)"
proof (induction n arbitrary: s)
  case 0
  then show ?case by simp
next
  case (Suc n)
  show ?case
  proof (cases "bit (regs s r) b")
    case True
    then show ?thesis by (simp add: bb_read_def)
  next
    case False
    from Suc.prems obtain j where j: "j < Suc n" "bit (fst ((hw ^^ j) (regs s, hidden s)) r) b"
      by blast
    with False obtain i where i: "j = Suc i" by (cases j) auto
    let ?s = "tick hw l (BB_Read r b False) s"
    have "bit (fst ((hw ^^ i) (regs ?s, hidden ?s)) r) b"
      using j i by (simp add: state_tick funpow_swap1)
    with j i have "fst (wait_bb n hw l r b ?s)"
      by (intro Suc.IH) auto
    with False show ?thesis by (simp add: bb_read_def)
  qed
qed

lemma wait_field_responds:
  "\<exists>j<n. fst ((hw ^^ j) (regs s, hidden s)) r AND m = v \<Longrightarrow> fst (wait_field n hw l r m v s)"
proof (induction n arbitrary: s)
  case 0
  then show ?case by simp
next
  case (Suc n)
  show ?case
  proof (cases "regs s r AND m = v")
    case True
    then show ?thesis by (simp add: reg_read_def)
  next
    case False
    from Suc.prems obtain j where j: "j < Suc n" "fst ((hw ^^ j) (regs s, hidden s)) r AND m = v"
      by blast
    with False obtain i where i: "j = Suc i" by (cases j) auto
    let ?s = "tick hw l (Reg_Read r (regs s r)) s"
    have "fst ((hw ^^ i) (regs ?s, hidden ?s)) r AND m = v"
      using j i by (simp add: state_tick funpow_swap1)
    with j i have "fst (wait_field n hw l r m v ?s)"
      by (intro Suc.IH) auto
    with False show ?thesis by (simp add: reg_read_def)
  qed
qed

lemma pll_start_returns:
  assumes "responds n hw k"
  shows "fst (pll_start n hw k c f s) = Some (best_frequency (search c f))"
proof -
  have 1: "fst (wait_bb n hw l RCC_CR RCC_CR_HSERDY_bit s')" for l s'
    using assms by (intro wait_bb_responds) (simp add: responds_def)
  have 2: "fst (wait_bb n hw l RCC_CR RCC_CR_PLL2RDY_bit s')" for l s'
    using assms by (intro wait_bb_responds) (simp add: responds_def)
  have 3: "fst (wait_bb n hw l RCC_CR RCC_CR_PLLRDY_bit s')" for l s'
    using assms by (intro wait_bb_responds) (simp add: responds_def)
  have 4: "fst (wait_field n hw l RCC_CFGR (RCC_CFGR_SWS k) (RCC_CFGR_SWS_PLL k) s')" for l s'
    using assms by (intro wait_field_responds) (simp add: responds_def)
  show ?thesis
    unfolding pll_start_def Let_def
    using 1 2 3 4 by (simp split: prod.splits) (metis fst_conv)
qed

lemma pll_start_result:
  "fst (pll_start fuel hw k c f s) = Some r \<Longrightarrow> r = best_frequency (search c f)"
  using pll_start_shape [of fuel hw k c f s] by auto

lemma field_update_read:
  fixes w m v :: u32
  shows "v AND m = v \<Longrightarrow> (w AND NOT m OR v) AND m = v"
  by (simp add: bit.conj_disj_distrib2 and.assoc)

lemma prompt_hw_responds: "responds 2 prompt_hw hdr_masks"
  unfolding responds_def
proof (intro conjI allI)
  fix st :: "(reg \<Rightarrow> u32) \<times> unit"
  show "\<exists>j<2. bit (fst ((prompt_hw ^^ j) st) RCC_CR) RCC_CR_HSERDY_bit"
    by (intro exI [of _ 1])
      (simp add: prompt_hw_def bit_simps RCC_CR_HSERDY_bit_def split: prod.splits)
  show "\<exists>j<2. bit (fst ((prompt_hw ^^ j) st) RCC_CR) RCC_CR_PLL2RDY_bit"
    by (intro exI [of _ 1])
      (simp add: prompt_hw_def bit_simps RCC_CR_PLL2RDY_bit_def split: prod.splits)
  show "\<exists>j<2. bit (fst ((prompt_hw ^^ j) st) RCC_CR) RCC_CR_PLLRDY_bit"
    by (intro exI [of _ 1])
      (simp add: prompt_hw_def bit_simps RCC_CR_PLLRDY_bit_def split: prod.splits)
  have "(w AND NOT (push_bit 2 3) OR push_bit 2 2) AND push_bit 2 3 = (push_bit 2 2 :: u32)"
    for w :: u32
    by (rule field_update_read) simp
  then show "\<exists>j<2. fst ((prompt_hw ^^ j) st) RCC_CFGR AND RCC_CFGR_SWS hdr_masks =
       RCC_CFGR_SWS_PLL hdr_masks"
    by (intro exI [of _ 1]) (simp add: prompt_hw_def hdr_masks_def split: prod.splits)
qed

subsection \<open>Concrete searches\<close>

lemma search_900k:
  "search 900000 18000000 =
     \<lparr>best_div1 = 4, best_div2 = 1, best_mul1 = 4, best_mul2 = 20, best_frequency = 18000000\<rparr>"
  by code_simp

lemma tie_900k:
  "(1, 20, 5, 5) \<in> set grid" "accepted 900000 18000000 (1, 20, 5, 5)"
  "pll1_of 900000 (1, 20, 5, 5) = 18000000"
  by (simp_all add: in_grid_unat)

subsection \<open>Tie-break of the search\<close>

text \<open>
  C3: when some tuple passes the guards of the search, the tuple that
  \<^verbatim>\<open>pll_start\<close> keeps in \<open>(best_div2, best_mul2, best_div1, best_mul1)\<close> is a tuple
  of the grid that passes the guards and gives \<^verbatim>\<open>best_frequency\<close>. Every tuple of
  the grid that passes the guards gives at most that frequency, and every one
  that gives exactly that frequency is the kept tuple or comes after it in the
  loop order (\<open>div2\<close> ascending, then \<open>mul2\<close>, then \<open>div1\<close>, then \<open>mul1\<close>): a later
  tuple replaces the stored one only when its frequency is strictly larger, so
  the kept tuple is the least of the maximal ones in loop order.
\<close>

theorem search_tie_break:
  assumes "feasible c f"
  shows "best_params (search c f) \<in> set grid \<and>
     accepted c f (best_params (search c f)) \<and>
     pll1_of c (best_params (search c f)) = best_frequency (search c f) \<and>
     (\<forall>u\<in>set grid. accepted c f u \<longrightarrow>
        pll1_of c u \<le> best_frequency (search c f) \<and>
        (pll1_of c u = best_frequency (search c f) \<longrightarrow> loop_le (best_params (search c f)) u))"
  using search_selected [OF assms] search_upper_bound [of _ c f] search_first [of _ c f]
  by blast

theorem search_tie_break_witness:
  "feasible 900000 18000000 \<and>
   best_params (search 900000 18000000) = (1, 20, 4, 4) \<and>
   accepted 900000 18000000 (1, 20, 5, 5) \<and>
   pll1_of 900000 (1, 20, 5, 5) = best_frequency (search 900000 18000000) \<and>
   loop_le (best_params (search 900000 18000000)) (1, 20, 5, 5)"
proof -
  have f: "feasible 900000 18000000"
    using tie_900k(1,2) unfolding feasible_def by blast
  have "pll1_of 900000 (1, 20, 5, 5) = best_frequency (search 900000 18000000)"
    by (simp add: search_900k)
  moreover have "best_params (search 900000 18000000) = (1, 20, 4, 4)"
    by (simp add: search_900k best_params_def)
  ultimately show ?thesis
    using f tie_900k search_tie_break [OF f] by blast
qed

subsection \<open>Multipliers of the selected configuration\<close>

text \<open>
  C8: when some tuple passes the guards, the \<open>mul2\<close> of the selected
  configuration is one of 8, 9, 10, 11, 12, 13, 14, 16, 20 and none of 15, 17,
  18, 19; its \<open>mul1\<close> is a loop value from 4 to 10, and the ratio the search
  applied for it is one of 4, 5, 6, 13/2, 7, 8, 9 (the loop value 10 stands for
  13/2): \<^verbatim>\<open>best_frequency\<close> is the PLL2 frequency divided by \<open>div1\<close>, times the
  numerator, divided by the denominator, in the 32-bit arithmetic of the code.
\<close>

theorem search_multipliers:
  assumes "feasible c f"
  shows "best_mul2 (search c f) \<in> {8, 9, 10, 11, 12, 13, 14, 16, 20} \<and>
     best_mul2 (search c f) \<notin> {15, 17, 18, 19} \<and>
     best_mul1 (search c f) \<in> {4, 5, 6, 7, 8, 9, 10} \<and>
     effective_mul1 (best_mul1 (search c f)) \<in>
       {(4, 1), (5, 1), (6, 1), (13, 2), (7, 1), (8, 1), (9, 1)} \<and>
     best_frequency (search c f) =
       (c div best_div2 (search c f) * best_mul2 (search c f)) div best_div1 (search c f) *
         fst (effective_mul1 (best_mul1 (search c f))) div
         snd (effective_mul1 (best_mul1 (search c f)))"
proof -
  define b where "b = search c f"
  have g: "(best_div2 b, best_mul2 b, best_div1 b, best_mul1 b) \<in> set grid"
    and a: "accepted c f (best_div2 b, best_mul2 b, best_div1 b, best_mul1 b)"
    and p: "pll1_of c (best_div2 b, best_mul2 b, best_div1 b, best_mul1 b) = best_frequency b"
    using search_selected [OF assms] by (simp_all add: b_def best_params_def)
  from g have m2: "best_mul2 b \<in> {8, 9, 10, 11, 12, 13, 14, 15, 16, 17, 18, 19, 20}"
    and m1: "best_mul1 b \<in> {4, 5, 6, 7, 8, 9, 10}"
    by (simp_all add: in_grid_iff loop_values_8_20 loop_values_4_10)
  from a have n: "best_mul2 b \<notin> {15, 17, 18, 19}"
    by simp
  from m2 n have "best_mul2 b \<in> {8, 9, 10, 11, 12, 13, 14, 16, 20}"
    by auto
  moreover from m1 have "effective_mul1 (best_mul1 b) \<in>
       {(4, 1), (5, 1), (6, 1), (13, 2), (7, 1), (8, 1), (9, 1)}"
    by (auto simp: effective_mul1_def)
  moreover from p have "best_frequency b =
       (c div best_div2 b * best_mul2 b) div best_div1 b *
         fst (effective_mul1 (best_mul1 b)) div snd (effective_mul1 (best_mul1 b))"
    by (auto simp: effective_mul1_def split: if_splits)
  ultimately show ?thesis
    using n m1 unfolding b_def by blast
qed

theorem search_multipliers_witness:
  "feasible 900000 18000000 \<and>
   best_mul2 (search 900000 18000000) = 20 \<and>
   effective_mul1 (best_mul1 (search 900000 18000000)) = (4, 1) \<and>
   best_mul2 (search 900000 18000000) \<in> {8, 9, 10, 11, 12, 13, 14, 16, 20} \<and>
   effective_mul1 (best_mul1 (search 900000 18000000)) \<in>
       {(4, 1), (5, 1), (6, 1), (13, 2), (7, 1), (8, 1), (9, 1)}"
proof -
  have f: "feasible 900000 18000000"
    using tie_900k(1,2) unfolding feasible_def by blast
  have "best_mul2 (search 900000 18000000) = 20"
    "effective_mul1 (best_mul1 (search 900000 18000000)) = (4, 1)"
    by (simp_all add: search_900k effective_mul1_def)
  then show ?thesis
    using f search_multipliers [OF f] by blast
qed

subsection \<open>Accesses that every run makes\<close>

lemma infeasible_zero: "c = 0 \<or> f = 0 \<Longrightarrow> \<not> feasible c f"
proof -
  have "\<not> accepted c f t" if "c = 0 \<or> f = 0" for t
  proof (cases t)
    case (fields div2 mul2 div1 mul1)
    show ?thesis
    proof (cases "c = 0")
      case True
      then show ?thesis by (simp add: fields)
    next
      case False
      with that have "f = 0" by simp
      then show ?thesis
        unfolding fields accepted.simps by (auto simp: word_less_nat_alt)
    qed
  qed
  then show "c = 0 \<or> f = 0 \<Longrightarrow> \<not> feasible c f"
    by (simp add: feasible_def)
qed

lemma feasible_nonzero: "feasible c f \<Longrightarrow> best_frequency (search c f) \<noteq> 0"
proof -
  assume "feasible c f"
  from search_selected(2,3) [OF this] accepted_ge_18MHz
  have "18000000 \<le> best_frequency (search c f)" by metis
  then show ?thesis by (auto simp: word_le_nat_alt)
qed

lemma seq_mem:
  "(Configure_PLL2, Reg_Or RCC_CFGR2 (cfgr2_operand k (search c f))) \<in> set (seq_HSE k c f n1)"
  "(Configure_PLL1, Reg_Or RCC_CFGR (cfgr_operand k (search c f)))
     \<in> set (seq_switch k c f n1 n2 n3 xs)"
  "(Switch_SYSCLK, Reg_Or RCC_CFGR (RCC_CFGR_SW_PLL k)) \<in> set (seq_switch k c f n1 n2 n3 xs)"
  "set (seq_HSE k c f n1) \<subseteq> set (seq_PLL2 k c f n1 n2)"
  "set (seq_PLL2 k c f n1 n2) \<subseteq> set (seq_PLL k c f n1 n2 n3)"
  "set (seq_PLL k c f n1 n2 n3) \<subseteq> set (seq_switch k c f n1 n2 n3 xs)"
  by (auto simp: seq_defs)

lemma configure_PLL2_accessed:
  "(Configure_PLL2, Reg_Or RCC_CFGR2 (cfgr2_operand k (search c f)))
     \<in> set (accesses fuel hw k c f s)"
  using pll_start_shape [of fuel hw k c f s] seq_mem(1,4,5,6) [of k c f]
  by (elim disjE conjE exE) (simp; blast)+

lemma returned_accessed:
  assumes "fst (pll_start fuel hw k c f s) \<noteq> None"
  shows "(Configure_PLL1, Reg_Or RCC_CFGR (cfgr_operand k (search c f)))
           \<in> set (accesses fuel hw k c f s)"
    and "(Switch_SYSCLK, Reg_Or RCC_CFGR (RCC_CFGR_SW_PLL k)) \<in> set (accesses fuel hw k c f s)"
  using pll_start_shape [of fuel hw k c f s] assms seq_mem(2,3) [of k c f]
  by auto


lemma in_grid_lists:
  "(div2, mul2, div1, mul1) \<in> set grid \<longleftrightarrow>
     div2 \<in> set [1, 2, 3, 4, 5, 6, 7, 8, 9, 10, 11, 12, 13, 14, 15, 16] \<and>
     mul2 \<in> set [8, 9, 10, 11, 12, 13, 14, 15, 16, 17, 18, 19, 20] \<and>
     div1 \<in> set [1, 2, 3, 4, 5, 6, 7, 8, 9, 10, 11, 12, 13, 14, 15, 16] \<and>
     mul1 \<in> set [4, 5, 6, 7, 8, 9, 10]"
  by (simp only: in_grid_iff loop_values_1_16 loop_values_8_20 loop_values_4_10)

lemma cfgr2_operand_eq:
  "cfgr2_operand k b =
     RCC_CFGR2_PREDIV1SRC k OR
     push_bit 8 (if best_mul2 b = 20 then 15 else best_mul2 b - 2) OR
     push_bit 4 (best_div2 b - 1) OR
     push_bit 0 (best_div1 b - 1)"
  by (simp add: cfgr2_operand_def encode_mul2_def encode_div_def RCC_CFGR2_PLL2MUL_bit_def
      RCC_CFGR2_PREDIV2_bit_def RCC_CFGR2_PREDIV1_bit_def RCC_CFGR2_PLL2MUL20_value_def)

lemma cfgr_operand_eq:
  "cfgr_operand k b =
     push_bit 18 (if best_mul1 b = 10 then 13 else best_mul1 b - 2) OR
     RCC_CFGR_PLLSRC k OR RCC_CFGR_PPRE1_DIV2 k"
  by (simp add: cfgr_operand_def encode_mul1_def RCC_CFGR_PLLMUL_bit_def
      RCC_CFGR_PLLMUL6_5_value_def)

subsection \<open>Encoding of the register fields\<close>

text \<open>
  C9: the operand that \<^verbatim>\<open>pll_start\<close> ORs into \<^verbatim>\<open>RCC->CFGR2\<close> holds, next to
  \<^verbatim>\<open>RCC_CFGR2_PREDIV1SRC\<close>, the field PLL2MUL (bit 8) with \<open>best_mul2 - 2\<close>, or
  with 15 when \<open>best_mul2\<close> is 20, the field PREDIV2 (bit 4) with
  \<open>best_div2 - 1\<close> and the field PREDIV1 (bit 0) with \<open>best_div1 - 1\<close>; this
  access is made in every run. A run that returns has ORed into \<^verbatim>\<open>RCC->CFGR\<close>,
  in one access, the field PLLMUL (bit 18) with \<open>best_mul1 - 2\<close>, or with 13
  when \<open>best_mul1\<close> is the loop value 10 that stands for 6.5, together with
  \<^verbatim>\<open>RCC_CFGR_PLLSRC\<close> (PLL1 fed from PREDIV1) and \<^verbatim>\<open>RCC_CFGR_PPRE1_DIV2\<close> (APB1
  clock divided by 2). For a selected configuration the subtractions do not
  wrap, and the four field values are the ones the header tabulates for the
  chosen dividers and multipliers.
\<close>

theorem pll_start_encoding:
  "(Configure_PLL2,
      Reg_Or RCC_CFGR2
        (RCC_CFGR2_PREDIV1SRC k OR
         push_bit 8 (if best_mul2 (search c f) = 20 then 15 else best_mul2 (search c f) - 2) OR
         push_bit 4 (best_div2 (search c f) - 1) OR
         push_bit 0 (best_div1 (search c f) - 1)))
     \<in> set (accesses fuel hw k c f s) \<and>
   (fst (pll_start fuel hw k c f s) \<noteq> None \<longrightarrow>
      (Configure_PLL1,
         Reg_Or RCC_CFGR
           (push_bit 18 (if best_mul1 (search c f) = 10 then 13 else best_mul1 (search c f) - 2) OR
            RCC_CFGR_PLLSRC k OR RCC_CFGR_PPRE1_DIV2 k))
        \<in> set (accesses fuel hw k c f s)) \<and>
   (feasible c f \<longrightarrow>
      map_of RCC_CFGR2_PREDIV2_values (unat (best_div2 (search c f))) =
        Some (unat (best_div2 (search c f) - 1)) \<and>
      map_of RCC_CFGR2_PREDIV1_values (unat (best_div1 (search c f))) =
        Some (unat (best_div1 (search c f) - 1)) \<and>
      map_of RCC_CFGR2_PLL2MUL_values (unat (best_mul2 (search c f))) =
        Some (unat (if best_mul2 (search c f) = 20 then 15 else best_mul2 (search c f) - 2)) \<and>
      map_of RCC_CFGR_PLLMUL_values (unat (best_mul1 (search c f))) =
        Some (unat (if best_mul1 (search c f) = 10 then 13 else best_mul1 (search c f) - 2)))"
proof (intro conjI impI)
  show "(Configure_PLL2,
      Reg_Or RCC_CFGR2
        (RCC_CFGR2_PREDIV1SRC k OR
         push_bit 8 (if best_mul2 (search c f) = 20 then 15 else best_mul2 (search c f) - 2) OR
         push_bit 4 (best_div2 (search c f) - 1) OR
         push_bit 0 (best_div1 (search c f) - 1)))
     \<in> set (accesses fuel hw k c f s)"
    using configure_PLL2_accessed [of k c f fuel hw s] unfolding cfgr2_operand_eq .
next
  assume "fst (pll_start fuel hw k c f s) \<noteq> None"
  from returned_accessed(1) [OF this]
  show "(Configure_PLL1,
         Reg_Or RCC_CFGR
           (push_bit 18 (if best_mul1 (search c f) = 10 then 13 else best_mul1 (search c f) - 2) OR
            RCC_CFGR_PLLSRC k OR RCC_CFGR_PPRE1_DIV2 k))
        \<in> set (accesses fuel hw k c f s)"
    unfolding cfgr_operand_eq .
next
  assume fe: "feasible c f"
  define b where "b = search c f"
  have g: "(best_div2 b, best_mul2 b, best_div1 b, best_mul1 b) \<in> set grid"
    and a: "accepted c f (best_div2 b, best_mul2 b, best_div1 b, best_mul1 b)"
    using search_selected [OF fe] by (simp_all add: b_def best_params_def)
  from g have d2: "best_div2 b \<in> {1, 2, 3, 4, 5, 6, 7, 8, 9, 10, 11, 12, 13, 14, 15, 16}"
    and d1: "best_div1 b \<in> {1, 2, 3, 4, 5, 6, 7, 8, 9, 10, 11, 12, 13, 14, 15, 16}"
    and m2: "best_mul2 b \<in> {8, 9, 10, 11, 12, 13, 14, 15, 16, 17, 18, 19, 20}"
    and m1: "best_mul1 b \<in> {4, 5, 6, 7, 8, 9, 10}"
    by (simp_all add: in_grid_lists)
  from a have n: "best_mul2 b \<notin> {15, 17, 18, 19}"
    by simp
  show "map_of RCC_CFGR2_PREDIV2_values (unat (best_div2 (search c f))) =
        Some (unat (best_div2 (search c f) - 1))"
    using d2 unfolding b_def [symmetric] by (auto simp: RCC_CFGR2_PREDIV2_values_def)
  show "map_of RCC_CFGR2_PREDIV1_values (unat (best_div1 (search c f))) =
        Some (unat (best_div1 (search c f) - 1))"
    using d1 unfolding b_def [symmetric] by (auto simp: RCC_CFGR2_PREDIV1_values_def)
  show "map_of RCC_CFGR2_PLL2MUL_values (unat (best_mul2 (search c f))) =
        Some (unat (if best_mul2 (search c f) = 20 then 15 else best_mul2 (search c f) - 2))"
    using m2 n unfolding b_def [symmetric] by (auto simp: RCC_CFGR2_PLL2MUL_values_def)
  show "map_of RCC_CFGR_PLLMUL_values (unat (best_mul1 (search c f))) =
        Some (unat (if best_mul1 (search c f) = 10 then 13 else best_mul1 (search c f) - 2))"
    using m1 unfolding b_def [symmetric] by (auto simp: RCC_CFGR_PLLMUL_values_def)
qed

theorem pll_start_encoding_witness:
  "feasible 900000 18000000 \<and>
   fst (pll_start 9 sim_hw hdr_masks 900000 18000000 (reset_machine 0)) \<noteq> None \<and>
   best_params (search 900000 18000000) = (1, 20, 4, 4) \<and>
   (Configure_PLL2, Reg_Or RCC_CFGR2 (push_bit 16 1 OR push_bit 8 15 OR push_bit 4 0 OR push_bit 0 3))
     \<in> set (accesses 9 sim_hw hdr_masks 900000 18000000 (reset_machine 0)) \<and>
   (Configure_PLL1, Reg_Or RCC_CFGR (push_bit 18 2 OR push_bit 16 1 OR push_bit 8 4))
     \<in> set (accesses 9 sim_hw hdr_masks 900000 18000000 (reset_machine 0)) \<and>
   map_of RCC_CFGR2_PREDIV2_values 1 = Some 0 \<and>
   map_of RCC_CFGR2_PREDIV1_values 4 = Some 3 \<and>
   map_of RCC_CFGR2_PLL2MUL_values 20 = Some 15 \<and>
   map_of RCC_CFGR_PLLMUL_values 4 = Some 2"
proof -
  have f: "feasible 900000 18000000"
    using tie_900k(1,2) unfolding feasible_def by blast
  have r: "fst (pll_start 9 sim_hw hdr_masks 900000 18000000 (reset_machine 0)) \<noteq> None"
    by (simp add: sim_run_result)
  have p: "best_params (search 900000 18000000) = (1, 20, 4, 4)"
    by (simp add: search_900k best_params_def)
  show ?thesis
    using f r p pll_start_encoding [of hdr_masks 900000 18000000 9 sim_hw "reset_machine 0"]
    by (simp add: search_900k hdr_masks_def)
qed

subsection \<open>When the search finds nothing\<close>

lemma operand_all_ones: "A OR B OR C OR push_bit 0 (4294967295 :: u32) = 4294967295"
proof -
  have e: "(4294967295 :: u32) = - 1" by simp
  show ?thesis unfolding e by simp
qed

lemma search_zero_crystal: "search 0 f = best_init"
  by (rule search_infeasible) (simp add: infeasible_zero)

lemma feasible_iff_spec:
  assumes "unat c \<le> 214748364"
  shows "feasible c f \<longleftrightarrow> spec_combinations True (unat c) (unat f) \<noteq> []"
proof
  assume "feasible c f"
  then obtain t where "t \<in> set grid" "accepted c f t"
    by (auto simp: feasible_def)
  with assms have "to_spec t \<in> set (spec_combinations True (unat c) (unat f))"
    by (simp add: accepted_iff_spec)
  then show "spec_combinations True (unat c) (unat f) \<noteq> []"
    by auto
next
  assume "spec_combinations True (unat c) (unat f) \<noteq> []"
  then obtain x where x: "x \<in> set (spec_combinations True (unat c) (unat f))"
    by (cases "spec_combinations True (unat c) (unat f)") auto
  then have "x \<in> set spec_grid"
    by (simp add: in_spec_combinations)
  from to_spec_onto [OF this] obtain t where t: "t \<in> set grid" "to_spec t = x"
    by blast
  with x assms have "accepted c f t"
    by (simp add: accepted_iff_spec)
  with t show "feasible c f"
    by (auto simp: feasible_def)
qed

lemma search_overflow:
  "search 541870912 72000000 =
     \<lparr>best_div1 = 5, best_div2 = 1, best_mul1 = 9, best_mul2 = 8, best_frequency = 72000000\<rparr>"
  by code_simp

lemma spec_overflow: "spec_combinations incl 541870912 72000000 = []"
proof -
  have False if "(div2, mul2, div1, mul1) \<in> set (spec_combinations incl 541870912 72000000)"
    for div2 mul2 div1 mul1
  proof -
    from that have d: "1 \<le> div2" "div2 \<le> 16" and m: "8 \<le> mul2"
      and le: "541870912 div div2 * mul2 \<le> 72000000"
      by (auto simp: in_spec_combinations in_spec_grid spec_pll2_def)
    from d have "(541870912 :: nat) div 16 \<le> 541870912 div div2"
      by (intro div_le_mono2) auto
    then have "(541870912 :: nat) div 16 * 8 \<le> 541870912 div div2 * mul2"
      using m by (rule mult_le_mono)
    with le show False by simp
  qed
  then have "set (spec_combinations incl 541870912 72000000) = {}"
    by (auto simp only: all_not_in_conv [symmetric] split_paired_all)
  then show ?thesis by simp
qed

lemma encode_zero:
  "encode_mul2 0 = 4294967294" "encode_mul1 0 = 4294967294" "encode_div 0 = 4294967295"
  by (simp_all add: encode_mul2_def encode_mul1_def encode_div_def)

lemma pllmul_wrapped: "push_bit 18 (4294967294 :: u32) = 4294443008"
  by simp

lemma cfgr2_operand_fields:
  "cfgr2_operand k b =
     RCC_CFGR2_PREDIV1SRC k OR push_bit 8 (encode_mul2 (best_mul2 b)) OR
     push_bit 4 (encode_div (best_div2 b)) OR push_bit 0 (encode_div (best_div1 b))"
  by (simp only: cfgr2_operand_def Let_def RCC_CFGR2_PLL2MUL_bit_def
      RCC_CFGR2_PREDIV2_bit_def RCC_CFGR2_PREDIV1_bit_def)

lemma cfgr_operand_fields:
  "cfgr_operand k b =
     push_bit 18 (encode_mul1 (best_mul1 b)) OR RCC_CFGR_PLLSRC k OR RCC_CFGR_PPRE1_DIV2 k"
  by (simp only: cfgr_operand_def Let_def RCC_CFGR_PLLMUL_bit_def)

lemma fields_zero:
  "push_bit RCC_CFGR2_PLL2MUL_bit (encode_mul2 0) = 4294966784"
  "push_bit RCC_CFGR2_PREDIV2_bit (encode_div 0) = 4294967280"
  "push_bit RCC_CFGR2_PREDIV1_bit (encode_div 0) = 4294967295"
  "push_bit RCC_CFGR_PLLMUL_bit (encode_mul1 0) = 4294443008"
  by (simp_all add: encode_mul2_def encode_mul1_def encode_div_def RCC_CFGR2_PLL2MUL_bit_def
      RCC_CFGR2_PREDIV2_bit_def RCC_CFGR2_PREDIV1_bit_def RCC_CFGR_PLLMUL_bit_def
      push_bit_eq_mult)

text \<open>
  C10: when the search leaves the four \<^verbatim>\<open>best_\<close> parameters at 0, the encoding
  of \<^verbatim>\<open>pll_start\<close> subtracts in 32-bit unsigned arithmetic and wraps:
  \<^verbatim>\<open>best_mul2 -= 2\<close> gives 4294967294, \<^verbatim>\<open>best_div2 -= 1\<close> and \<^verbatim>\<open>best_div1 -= 1\<close>
  give 4294967295, and \<^verbatim>\<open>best_mul1 -= 2\<close> gives 4294967294. The field values
  shifted into place are built from these wrapped values, not from 0:
  4294966784 for PLL2MUL, 4294967280 for PREDIV2, 4294967295 for PREDIV1 and
  4294443008 for PLLMUL. The operand ORed into \<^verbatim>\<open>RCC->CFGR2\<close> therefore has all
  32 bits set, whatever the mask \<^verbatim>\<open>RCC_CFGR2_PREDIV1SRC\<close> is, and every run
  makes this access; the operand ORed into \<^verbatim>\<open>RCC->CFGR\<close> is 4294443008 together
  with \<^verbatim>\<open>RCC_CFGR_PLLSRC\<close> and \<^verbatim>\<open>RCC_CFGR_PPRE1_DIV2\<close>, and every run that
  returns has made this access.
\<close>

theorem pll_start_wrapped_fields:
  assumes "best_params (search c f) = (0, 0, 0, 0)"
  shows "encode_mul2 (best_mul2 (search c f)) = 4294967294 \<and>
     encode_div (best_div2 (search c f)) = 4294967295 \<and>
     encode_div (best_div1 (search c f)) = 4294967295 \<and>
     encode_mul1 (best_mul1 (search c f)) = 4294967294 \<and>
     push_bit RCC_CFGR2_PLL2MUL_bit (encode_mul2 (best_mul2 (search c f))) = 4294966784 \<and>
     push_bit RCC_CFGR2_PREDIV2_bit (encode_div (best_div2 (search c f))) = 4294967280 \<and>
     push_bit RCC_CFGR2_PREDIV1_bit (encode_div (best_div1 (search c f))) = 4294967295 \<and>
     push_bit RCC_CFGR_PLLMUL_bit (encode_mul1 (best_mul1 (search c f))) = 4294443008 \<and>
     cfgr2_operand k (search c f) =
       RCC_CFGR2_PREDIV1SRC k OR push_bit 8 4294967294 OR push_bit 4 4294967295 OR
       push_bit 0 4294967295 \<and>
     cfgr2_operand k (search c f) = 4294967295 \<and>
     cfgr_operand k (search c f) =
       push_bit 18 4294967294 OR RCC_CFGR_PLLSRC k OR RCC_CFGR_PPRE1_DIV2 k \<and>
     cfgr_operand k (search c f) =
       4294443008 OR RCC_CFGR_PLLSRC k OR RCC_CFGR_PPRE1_DIV2 k \<and>
     (Configure_PLL2, Reg_Or RCC_CFGR2 4294967295) \<in> set (accesses fuel hw k c f s) \<and>
     (fst (pll_start fuel hw k c f s) \<noteq> None \<longrightarrow>
        (Configure_PLL1,
           Reg_Or RCC_CFGR (4294443008 OR RCC_CFGR_PLLSRC k OR RCC_CFGR_PPRE1_DIV2 k))
          \<in> set (accesses fuel hw k c f s))"
proof -
  from assms have z: "best_mul2 (search c f) = 0" "best_div2 (search c f) = 0"
    "best_div1 (search c f) = 0" "best_mul1 (search c f) = 0"
    by (simp_all add: best_params_def)
  have e: "encode_mul2 (best_mul2 (search c f)) = 4294967294"
    "encode_div (best_div2 (search c f)) = 4294967295"
    "encode_div (best_div1 (search c f)) = 4294967295"
    "encode_mul1 (best_mul1 (search c f)) = 4294967294"
    by (simp_all only: z encode_zero)
  have fl: "push_bit RCC_CFGR2_PLL2MUL_bit (encode_mul2 (best_mul2 (search c f))) = 4294966784"
    "push_bit RCC_CFGR2_PREDIV2_bit (encode_div (best_div2 (search c f))) = 4294967280"
    "push_bit RCC_CFGR2_PREDIV1_bit (encode_div (best_div1 (search c f))) = 4294967295"
    "push_bit RCC_CFGR_PLLMUL_bit (encode_mul1 (best_mul1 (search c f))) = 4294443008"
    by (simp_all only: z fields_zero)
  have op2: "cfgr2_operand k (search c f) =
       RCC_CFGR2_PREDIV1SRC k OR push_bit 8 4294967294 OR push_bit 4 4294967295 OR
       push_bit 0 4294967295"
    by (simp only: cfgr2_operand_fields z encode_zero)
  have ones: "cfgr2_operand k (search c f) = 4294967295"
    by (simp only: op2 operand_all_ones)
  have op1: "cfgr_operand k (search c f) =
       push_bit 18 4294967294 OR RCC_CFGR_PLLSRC k OR RCC_CFGR_PPRE1_DIV2 k"
    by (simp only: cfgr_operand_fields z encode_zero)
  have op1': "cfgr_operand k (search c f) =
       4294443008 OR RCC_CFGR_PLLSRC k OR RCC_CFGR_PPRE1_DIV2 k"
    by (simp only: op1 pllmul_wrapped)
  have acc2: "(Configure_PLL2, Reg_Or RCC_CFGR2 4294967295) \<in> set (accesses fuel hw k c f s)"
    using configure_PLL2_accessed [of k c f fuel hw s] by (simp only: ones)
  have acc1: "(Configure_PLL1,
           Reg_Or RCC_CFGR (4294443008 OR RCC_CFGR_PLLSRC k OR RCC_CFGR_PPRE1_DIV2 k))
          \<in> set (accesses fuel hw k c f s)"
    if "fst (pll_start fuel hw k c f s) \<noteq> None"
    using returned_accessed(1) [OF that] by (simp only: op1')
  from e fl op2 ones op1 op1' acc2 acc1 show ?thesis
    by (intro conjI impI)
qed

theorem pll_start_wrapped_fields_witness:
  "best_params (search 0 72000000) = (0, 0, 0, 0) \<and>
   fst (pll_start 2 prompt_hw hdr_masks 0 72000000 (reset_machine ())) \<noteq> None \<and>
   encode_mul2 (best_mul2 (search 0 72000000)) = 4294967294 \<and>
   encode_div (best_div2 (search 0 72000000)) = 4294967295 \<and>
   encode_div (best_div1 (search 0 72000000)) = 4294967295 \<and>
   encode_mul1 (best_mul1 (search 0 72000000)) = 4294967294 \<and>
   (Configure_PLL2, Reg_Or RCC_CFGR2 4294967295)
     \<in> set (accesses 2 prompt_hw hdr_masks 0 72000000 (reset_machine ())) \<and>
   (Configure_PLL1,
      Reg_Or RCC_CFGR
        (4294443008 OR RCC_CFGR_PLLSRC hdr_masks OR RCC_CFGR_PPRE1_DIV2 hdr_masks))
     \<in> set (accesses 2 prompt_hw hdr_masks 0 72000000 (reset_machine ())) \<and>
   4294443008 OR RCC_CFGR_PLLSRC hdr_masks OR RCC_CFGR_PPRE1_DIV2 hdr_masks = 4294509568"
proof -
  have z: "best_params (search 0 72000000) = (0, 0, 0, 0)"
    by (simp add: search_zero_crystal best_params_def best_init_def)
  have r: "fst (pll_start 2 prompt_hw hdr_masks 0 72000000 (reset_machine ())) \<noteq> None"
    using pll_start_returns [OF prompt_hw_responds, of 0 72000000 "reset_machine ()"] by simp
  have n: "4294443008 OR RCC_CFGR_PLLSRC hdr_masks OR RCC_CFGR_PPRE1_DIV2 hdr_masks = 4294509568"
    by (simp add: hdr_masks_def)
  show ?thesis
    using z r n pll_start_wrapped_fields [OF z, of hdr_masks 2 prompt_hw "reset_machine ()"]
    by blast
qed

text \<open>
  C4, as the code has it. The guards of \<^verbatim>\<open>pll_start\<close> test the frequencies it
  computes in 32-bit unsigned arithmetic; \<open>feasible\<close> says that some tuple of
  the grid passes them. With a crystal or a target of 0 no tuple passes. For a
  crystal of at most 214,748,364 Hz nothing wraps, and a tuple passes exactly
  when the exact formulas give a PLL2 output within 18 MHz and 72 MHz and a
  PLL1 output of at least 18 MHz and at most the target. When no tuple passes,
  the five accumulators keep their initial value 0; \<^verbatim>\<open>pll_start\<close> has no error
  result: it writes the operand built from the zero parameters to
  \<^verbatim>\<open>RCC->CFGR2\<close>, a run that returns has also written the one for
  \<^verbatim>\<open>RCC->CFGR\<close> and requested the switch, and it returns 0; it does return when
  the hardware shows each awaited condition within the given number of reads.
\<close>

theorem pll_start_infeasible:
  "(c = 0 \<or> f = 0 \<longrightarrow> \<not> feasible c f) \<and>
   (unat c \<le> 214748364 \<longrightarrow>
      (feasible c f \<longleftrightarrow> spec_combinations True (unat c) (unat f) \<noteq> [])) \<and>
   (\<not> feasible c f \<longrightarrow>
      search c f = best_init \<and>
      (\<forall>r. fst (pll_start fuel hw k c f s) = Some r \<longrightarrow> r = 0) \<and>
      (responds n hw k \<longrightarrow> fst (pll_start n hw k c f s) = Some 0) \<and>
      (Configure_PLL2, Reg_Or RCC_CFGR2 (cfgr2_operand k best_init))
        \<in> set (accesses fuel hw k c f s) \<and>
      (fst (pll_start fuel hw k c f s) \<noteq> None \<longrightarrow>
         (Configure_PLL1, Reg_Or RCC_CFGR (cfgr_operand k best_init))
           \<in> set (accesses fuel hw k c f s) \<and>
         (Switch_SYSCLK, Reg_Or RCC_CFGR (RCC_CFGR_SW_PLL k))
           \<in> set (accesses fuel hw k c f s)))"
proof (intro conjI impI allI)
  show "\<not> feasible c f" if "c = 0 \<or> f = 0"
    using that by (rule infeasible_zero)
  show "feasible c f \<longleftrightarrow> spec_combinations True (unat c) (unat f) \<noteq> []"
    if "unat c \<le> 214748364"
    using that by (rule feasible_iff_spec)
next
  assume n: "\<not> feasible c f"
  then show b: "search c f = best_init"
    by (rule search_infeasible)
  show "r = 0" if "fst (pll_start fuel hw k c f s) = Some r" for r
    using pll_start_result [OF that] b by (simp add: best_init_def)
  show "fst (pll_start n hw k c f s) = Some 0" if "responds n hw k"
    using pll_start_returns [OF that, of c f s] b by (simp add: best_init_def)
  show "(Configure_PLL2, Reg_Or RCC_CFGR2 (cfgr2_operand k best_init))
        \<in> set (accesses fuel hw k c f s)"
    using configure_PLL2_accessed [of k c f fuel hw s] b by simp
  show "(Configure_PLL1, Reg_Or RCC_CFGR (cfgr_operand k best_init))
           \<in> set (accesses fuel hw k c f s)"
    if "fst (pll_start fuel hw k c f s) \<noteq> None"
    using returned_accessed(1) [OF that] b by simp
  show "(Switch_SYSCLK, Reg_Or RCC_CFGR (RCC_CFGR_SW_PLL k))
           \<in> set (accesses fuel hw k c f s)"
    if "fst (pll_start fuel hw k c f s) \<noteq> None"
    using returned_accessed(2) [OF that] .
qed

theorem pll_start_infeasible_witness:
  "\<not> feasible 0 72000000 \<and>
   spec_combinations True 0 72000000 = [] \<and>
   search 0 72000000 = best_init \<and>
   responds 2 prompt_hw hdr_masks \<and>
   fst (pll_start 2 prompt_hw hdr_masks 0 72000000 (reset_machine ())) = Some 0 \<and>
   (Configure_PLL2, Reg_Or RCC_CFGR2 (cfgr2_operand hdr_masks best_init))
     \<in> set (accesses 2 prompt_hw hdr_masks 0 72000000 (reset_machine ())) \<and>
   (Switch_SYSCLK, Reg_Or RCC_CFGR (RCC_CFGR_SW_PLL hdr_masks))
     \<in> set (accesses 2 prompt_hw hdr_masks 0 72000000 (reset_machine ()))"
proof -
  have r: "responds 2 prompt_hw hdr_masks"
    by (rule prompt_hw_responds)
  have u: "unat (0 :: u32) \<le> 214748364" "unat (0 :: u32) = 0" "unat (72000000 :: u32) = 72000000"
    by simp_all
  show ?thesis
    using r u pll_start_infeasible
      [of 0 72000000 2 prompt_hw hdr_masks "reset_machine ()" 2]
    by (metis option.distinct(1))
qed

text \<open>
  The claim as stated, with the range constraints read on the exact
  frequencies, fails for a crystal of 541,870,912 Hz and a target of
  72,000,000 Hz: no combination is in range (the smallest PLL2 output,
  \<open>541870912 / 16 * 8\<close>, is above 72 MHz), but \<open>541870912 * 8\<close> wraps to
  40,000,000, the search accepts it and \<^verbatim>\<open>pll_start\<close> returns 72,000,000.
\<close>

theorem pll_start_infeasible_counterexample:
  "spec_combinations False 541870912 72000000 = [] \<and>
   spec_combinations True 541870912 72000000 = [] \<and>
   best_params (search 541870912 72000000) = (1, 8, 5, 9) \<and>
   best_frequency (search 541870912 72000000) = 72000000 \<and>
   fst (pll_start 2 prompt_hw hdr_masks 541870912 72000000 (reset_machine ())) = Some 72000000"
  using pll_start_returns [OF prompt_hw_responds, of 541870912 72000000 "reset_machine ()"]
  by (simp add: spec_overflow search_overflow best_params_def)

subsection \<open>The returned frequency is the maximum of the reference\<close>

lemma spec_in_range_weaken: "spec_in_range incl C F x \<Longrightarrow> spec_in_range True C F x"
  by (cases x) (auto split: if_splits)

lemma spec_in_range_strict:
  "spec_in_range True C F x \<Longrightarrow> 18000000 < spec_frequency C x \<Longrightarrow> spec_in_range False C F x"
  by (cases x) auto

lemma spec_in_range_over: "spec_in_range False C F x \<Longrightarrow> 18000000 < spec_frequency C x"
  by (cases x) auto

lemma spec_crystal_small:
  assumes "x \<in> set (spec_combinations incl C F)"
  shows "C \<le> 214748364"
proof -
  obtain div2 mul2 div1 mul1 where x: "x = (div2, mul2, div1, mul1)"
    by (cases x)
  from assms have d: "1 \<le> div2" "div2 \<le> 16" and m: "8 \<le> mul2"
    and le: "C div div2 * mul2 \<le> 72000000"
    unfolding x by (auto simp: in_spec_combinations in_spec_grid spec_pll2_def)
  have "C div div2 * 8 \<le> C div div2 * mul2"
    using m by (intro mult_le_mono) auto
  then have "C div div2 * 8 \<le> 72000000"
    using le by (rule le_trans)
  then have q: "C div div2 \<le> 9000000" by arith
  have "C < div2 + C div div2 * div2"
    using d(1) by (intro dividend_less_div_times) simp
  also have "\<dots> \<le> 16 + 9000000 * 16"
    using q d(2) by (intro add_mono mult_le_mono)
  finally show ?thesis by simp
qed

lemma spec_feasible_imp_feasible:
  assumes "spec_combinations incl (unat c) (unat f) \<noteq> []"
  shows "feasible c f"
proof -
  from assms obtain x where x: "x \<in> set (spec_combinations incl (unat c) (unat f))"
    by (cases "spec_combinations incl (unat c) (unat f)") auto
  then have "unat c \<le> 214748364"
    by (rule spec_crystal_small)
  moreover from x have "x \<in> set (spec_combinations True (unat c) (unat f))"
    using spec_in_range_weaken [of incl "unat c" "unat f" x] by (simp add: in_spec_combinations)
  ultimately show ?thesis
    using feasible_iff_spec [of c f] by auto
qed

lemma unat_frequency_spec:
  assumes "t \<in> set grid" "unat c \<le> 214748364" "accepted c f t"
  shows "unat (pll1_of c t) = spec_frequency (unat c) (to_spec t)"
proof -
  obtain div2 mul2 div1 mul1 where t: "t = (div2, mul2, div1, mul1)"
    by (cases t)
  from assms(3) have "unat (pll2_of c t) \<le> 72000000"
    unfolding t accepted.simps by (simp add: word_less_nat_alt not_less)
  with assms(1,2) show ?thesis
    unfolding t by (rule unat_pll1_of)
qed

lemma scenario_25MHz:
  "(5, 8, 5, PLLMUL 9) \<in> set (spec_combinations False 25000000 72000000)"
  "(5, 8, 5, 9) \<in> set grid" "accepted 25000000 72000000 (5, 8, 5, 9)"
  "pll1_of 25000000 (5, 8, 5, 9) = 72000000"
  by (simp_all add: in_spec_combinations in_spec_grid spec_pll2_def in_grid_unat)

lemma boundary_25MHz:
  "(5, 9, 10, 4) \<in> set grid" "accepted 25000000 18000000 (5, 9, 10, 4)"
  "pll1_of 25000000 (5, 9, 10, 4) = 18000000"
  by (simp_all add: in_grid_unat)

lemma pll_start_range:
  assumes "fst (pll_start fuel hw k c f s) = Some r" "r \<noteq> 0"
  shows "18000000 \<le> unat r \<and> unat r \<le> unat f"
proof -
  have r: "r = best_frequency (search c f)"
    using assms(1) by (rule pll_start_result)
  have "feasible c f"
  proof (rule ccontr)
    assume "\<not> feasible c f"
    then have "search c f = best_init" by (rule search_infeasible)
    with r assms(2) show False by (simp add: best_init_def)
  qed
  from search_selected(2,3) [OF this] accepted_ge_18MHz accepted_le_frequency
  have "18000000 \<le> r" "r \<le> f"
    unfolding r by metis+
  then show ?thesis
    by (simp add: word_le_nat_alt)
qed

text \<open>
  C1: when at least one combination of the reference satisfies both range
  constraints under the exact formulas, the frequency that \<^verbatim>\<open>pll_start\<close>
  computes and returns is the maximum of the frequencies that these
  combinations reach, and it is at most the target. This holds for both
  readings of the lower bound of the PLL1 output (\<open>incl\<close>). Every run that
  returns gives this value, and the run returns when the hardware shows each
  awaited condition within the given number of reads. A feasible combination
  bounds the crystal by 144,000,015 Hz, so that no product of the search wraps.
\<close>

theorem pll_start_maximum:
  assumes "spec_reachable incl (unat c) (unat f) \<noteq> []"
  shows "unat (best_frequency (search c f)) = Max (set (spec_reachable incl (unat c) (unat f))) \<and>
     unat (best_frequency (search c f)) \<le> unat f \<and>
     (\<forall>r. fst (pll_start fuel hw k c f s) = Some r \<longrightarrow> r = best_frequency (search c f)) \<and>
     (responds n hw k \<longrightarrow> fst (pll_start n hw k c f s) = Some (best_frequency (search c f)))"
proof -
  define C F where "C = unat c" and "F = unat f"
  define t where "t = best_params (search c f)"
  define r where "r = best_frequency (search c f)"
  from assms obtain x where x: "x \<in> set (spec_combinations incl C F)"
    by (cases "spec_combinations incl C F") (auto simp: spec_reachable_def C_def F_def)
  then have small: "unat c \<le> 214748364"
    unfolding C_def by (rule spec_crystal_small)
  from x have xT: "x \<in> set (spec_combinations True C F)"
    using spec_in_range_weaken [of incl C F x] by (simp add: in_spec_combinations)
  then have fe: "feasible c f"
    using feasible_iff_spec [OF small, of f] by (auto simp: C_def F_def)
  have t: "t \<in> set grid" "accepted c f t" "pll1_of c t = r"
    using search_selected [OF fe] by (simp_all add: t_def r_def)
  have rt: "unat r = spec_frequency C (to_spec t)"
    using unat_frequency_spec [OF t(1) small t(2)] t(3) by (simp add: C_def)
  have tT: "to_spec t \<in> set (spec_combinations True C F)"
    using accepted_iff_spec [OF t(1) small, of f] t(2) by (simp add: C_def F_def)
  have upper: "y \<le> unat r" if "y \<in> set (spec_reachable True C F)" for y
  proof -
    from that obtain x' where x': "x' \<in> set (spec_combinations True C F)"
      "y = spec_frequency C x'"
      by (auto simp: spec_reachable_def)
    then have "x' \<in> set spec_grid" by (simp add: in_spec_combinations)
    from to_spec_onto [OF this] obtain u where u: "u \<in> set grid" "to_spec u = x'"
      by blast
    with x' have a: "accepted c f u"
      using accepted_iff_spec [OF u(1) small, of f] by (simp add: C_def F_def)
    have "unat (pll1_of c u) = y"
      using unat_frequency_spec [OF u(1) small a] u(2) x'(2) by (simp add: C_def)
    moreover have "pll1_of c u \<le> r"
      using search_upper_bound [OF u(1) a] by (simp add: r_def)
    ultimately show ?thesis by (simp add: word_le_nat_alt)
  qed
  have "x' \<in> set (spec_combinations True C F)"
    if "x' \<in> set (spec_combinations incl C F)" for x'
    using that spec_in_range_weaken [of incl C F x'] by (simp add: in_spec_combinations)
  then have sub: "set (spec_reachable incl C F) \<subseteq> set (spec_reachable True C F)"
    unfolding spec_reachable_def set_map by (intro image_mono subsetI)
  have mem: "unat r \<in> set (spec_reachable incl C F)"
  proof (cases incl)
    case True
    with tT rt show ?thesis by (auto simp: spec_reachable_def)
  next
    case False
    with x have "18000000 < spec_frequency C x"
      using spec_in_range_over [of C F x] by (simp add: in_spec_combinations)
    moreover have "spec_frequency C x \<le> unat r"
      using xT by (intro upper) (auto simp: spec_reachable_def)
    ultimately have "18000000 < spec_frequency C (to_spec t)"
      using rt by simp
    with tT have "to_spec t \<in> set (spec_combinations False C F)"
      using spec_in_range_strict [of C F "to_spec t"] by (simp add: in_spec_combinations)
    with False rt show ?thesis by (auto simp: spec_reachable_def)
  qed
  have "Max (set (spec_reachable incl C F)) = unat r"
    using mem upper sub by (intro Max_eqI) auto
  moreover have "unat r \<le> F"
    using accepted_le_frequency [OF t(2)] t(3) by (simp add: word_le_nat_alt F_def)
  moreover have "r' = r" if "fst (pll_start fuel hw k c f s) = Some r'" for r'
    using pll_start_result [OF that] by (simp add: r_def)
  moreover have "fst (pll_start n hw k c f s) = Some r" if "responds n hw k"
    using pll_start_returns [OF that, of c f s] by (simp add: r_def)
  ultimately show ?thesis
    unfolding C_def F_def r_def by auto
qed

theorem pll_start_maximum_witness:
  "spec_reachable False 25000000 72000000 \<noteq> [] \<and>
   unat (best_frequency (search 25000000 72000000)) =
     Max (set (spec_reachable False 25000000 72000000)) \<and>
   best_frequency (search 25000000 72000000) = 72000000 \<and>
   responds 2 prompt_hw hdr_masks \<and>
   fst (pll_start 2 prompt_hw hdr_masks 25000000 72000000 (reset_machine ())) = Some 72000000"
proof -
  have ne: "spec_reachable False (unat (25000000 :: u32)) (unat (72000000 :: u32)) \<noteq> []"
    using scenario_25MHz(1) by (auto simp: spec_reachable_def)
  note m = pll_start_maximum [OF ne, of 2 prompt_hw hdr_masks "reset_machine ()" 2]
  have "72000000 \<le> best_frequency (search 25000000 72000000)"
    using search_upper_bound [OF scenario_25MHz(2,3)] scenario_25MHz(4) by simp
  moreover from m have "best_frequency (search 25000000 72000000) \<le> 72000000"
    by (simp add: word_le_nat_alt)
  ultimately have b: "best_frequency (search 25000000 72000000) = 72000000"
    by simp
  show ?thesis
    using ne m b prompt_hw_responds by simp
qed

subsection \<open>The lower bound of the PLL1 output\<close>

text \<open>
  C2: the comment above the guard of the inner loop says that the PLL1 output
  must be over 18 MHz, but the guard \<^verbatim>\<open>pll1_frequency < 18000000ul\<close> rejects only
  smaller values, so a tuple that gives exactly 18,000,000 Hz is accepted. With
  the 25 MHz crystal of \<^verbatim>\<open>config.h\<close> and a target of 18,000,000 Hz the tuple
  \<open>div2 = 5\<close>, \<open>mul2 = 9\<close>, \<open>div1 = 10\<close>, \<open>mul1 = 4\<close> passes the guards with
  exactly 18,000,000 Hz, and \<^verbatim>\<open>pll_start\<close> returns 18,000,000, which is not
  strictly greater than 18 MHz. (The other bounds hold: a nonzero result is at
  least 18 MHz and at most the target, lemma \<open>pll_start_range\<close>.)
\<close>

theorem pll_start_returns_18MHz:
  "accepted 25000000 18000000 (5, 9, 10, 4) \<and>
   pll1_of 25000000 (5, 9, 10, 4) = 18000000 \<and>
   best_frequency (search 25000000 18000000) = 18000000 \<and>
   fst (pll_start 2 prompt_hw hdr_masks 25000000 18000000 (reset_machine ())) = Some 18000000"
proof -
  have fe: "feasible 25000000 18000000"
    using boundary_25MHz(1,2) unfolding feasible_def by blast
  have "18000000 \<le> best_frequency (search 25000000 18000000)"
    using search_upper_bound [OF boundary_25MHz(1,2)] boundary_25MHz(3) by simp
  moreover have "best_frequency (search 25000000 18000000) \<le> 18000000"
    using search_selected(2,3) [OF fe] accepted_le_frequency by metis
  ultimately have b: "best_frequency (search 25000000 18000000) = 18000000"
    by simp
  show ?thesis
    using b boundary_25MHz(2,3)
      pll_start_returns [OF prompt_hw_responds, of 25000000 18000000 "reset_machine ()"]
    by simp
qed

subsection \<open>Order of the switch sequence\<close>

text \<open>
  C6: in every run of \<^verbatim>\<open>pll_start\<close>, finished or still spinning in a wait, the
  PLL1 enable bit (PLLON) is set only after the PLL2-locked flag (PLL2RDY) has
  been read as set, and the statement that changes SYSCLK to the PLL runs only
  after the PLL1-locked flag (PLLRDY) has been read as set. A run that returns
  ends with a read of \<^verbatim>\<open>RCC->CFGR\<close> whose SWS field (the value under the mask
  \<^verbatim>\<open>RCC_CFGR_SWS\<close>) equals \<^verbatim>\<open>RCC_CFGR_SWS_PLL\<close>, and every earlier read of that
  wait showed another value in the SWS field: the SW field plays no part in
  ending the wait.
\<close>

theorem pll_start_lock_order:
  "before (reads_set RCC_CR_PLL2RDY_bit) (sets_bit RCC_CR_PLLON_bit)
     (accesses fuel hw k c f s) \<and>
   before (reads_set RCC_CR_PLLRDY_bit) (made_by Switch_SYSCLK)
     (accesses fuel hw k c f s) \<and>
   (fst (pll_start fuel hw k c f s) \<noteq> None \<longrightarrow>
      (\<exists>pre y. accesses fuel hw k c f s = pre @ [(Wait_switch, Reg_Read RCC_CFGR y)] \<and>
         y AND RCC_CFGR_SWS k = RCC_CFGR_SWS_PLL k \<and>
         (\<forall>x. (Wait_switch, Reg_Read RCC_CFGR x) \<in> set pre \<longrightarrow>
            x AND RCC_CFGR_SWS k \<noteq> RCC_CFGR_SWS_PLL k)))"
proof (intro conjI impI)
  show "before (reads_set RCC_CR_PLL2RDY_bit) (sets_bit RCC_CR_PLLON_bit)
     (accesses fuel hw k c f s)"
    using pll_start_shape [of fuel hw k c f s]
    by (elim disjE conjE exE) (simp_all add: seq_defs kind_defs bit_defs before_simps)
  show "before (reads_set RCC_CR_PLLRDY_bit) (made_by Switch_SYSCLK)
     (accesses fuel hw k c f s)"
    using pll_start_shape [of fuel hw k c f s]
    by (elim disjE conjE exE) (simp_all add: seq_defs kind_defs bit_defs before_simps)
next
  assume "fst (pll_start fuel hw k c f s) \<noteq> None"
  with pll_start_shape [of fuel hw k c f s] obtain n1 n2 n3 xs y where
    tr: "accesses fuel hw k c f s =
           seq_switch k c f n1 n2 n3 xs @ [(Wait_switch, Reg_Read RCC_CFGR y)]"
    and xs: "\<forall>x\<in>set xs. x AND RCC_CFGR_SWS k \<noteq> RCC_CFGR_SWS_PLL k"
    and y: "y AND RCC_CFGR_SWS k = RCC_CFGR_SWS_PLL k"
    by auto
  have "\<forall>x. (Wait_switch, Reg_Read RCC_CFGR x) \<in> set (seq_switch k c f n1 n2 n3 xs) \<longrightarrow>
            x AND RCC_CFGR_SWS k \<noteq> RCC_CFGR_SWS_PLL k"
    using xs by (auto simp: seq_defs)
  with tr y show "\<exists>pre y. accesses fuel hw k c f s = pre @ [(Wait_switch, Reg_Read RCC_CFGR y)] \<and>
         y AND RCC_CFGR_SWS k = RCC_CFGR_SWS_PLL k \<and>
         (\<forall>x. (Wait_switch, Reg_Read RCC_CFGR x) \<in> set pre \<longrightarrow>
            x AND RCC_CFGR_SWS k \<noteq> RCC_CFGR_SWS_PLL k)"
    by blast
qed

theorem pll_start_lock_order_witness:
  "fst (pll_start 9 sim_hw hdr_masks 900000 18000000 (reset_machine 0)) \<noteq> None \<and>
   (Enable_PLL, BB_Set RCC_CR RCC_CR_PLLON_bit)
     \<in> set (accesses 9 sim_hw hdr_masks 900000 18000000 (reset_machine 0)) \<and>
   (Wait_switch, Reg_Read RCC_CFGR 590850)
     \<in> set (accesses 9 sim_hw hdr_masks 900000 18000000 (reset_machine 0)) \<and>
   (590850 :: u32) AND 3 = RCC_CFGR_SW_PLL hdr_masks \<and>
   before (reads_set RCC_CR_PLL2RDY_bit) (sets_bit RCC_CR_PLLON_bit)
     (accesses 9 sim_hw hdr_masks 900000 18000000 (reset_machine 0)) \<and>
   before (reads_set RCC_CR_PLLRDY_bit) (made_by Switch_SYSCLK)
     (accesses 9 sim_hw hdr_masks 900000 18000000 (reset_machine 0)) \<and>
   (\<exists>pre y. accesses 9 sim_hw hdr_masks 900000 18000000 (reset_machine 0) =
        pre @ [(Wait_switch, Reg_Read RCC_CFGR y)] \<and>
      y AND RCC_CFGR_SWS hdr_masks = RCC_CFGR_SWS_PLL hdr_masks \<and>
      (\<forall>x. (Wait_switch, Reg_Read RCC_CFGR x) \<in> set pre \<longrightarrow>
         x AND RCC_CFGR_SWS hdr_masks \<noteq> RCC_CFGR_SWS_PLL hdr_masks))"
proof -
  have ret: "fst (pll_start 9 sim_hw hdr_masks 900000 18000000 (reset_machine 0)) \<noteq> None"
    by (simp add: sim_run_result)
  have "(590850 :: u32) AND 3 = RCC_CFGR_SW_PLL hdr_masks"
    by (simp add: hdr_masks_def)
  moreover have "(Enable_PLL, BB_Set RCC_CR RCC_CR_PLLON_bit)
     \<in> set (accesses 9 sim_hw hdr_masks 900000 18000000 (reset_machine 0))"
    "(Wait_switch, Reg_Read RCC_CFGR 590850)
     \<in> set (accesses 9 sim_hw hdr_masks 900000 18000000 (reset_machine 0))"
    by (simp_all add: sim_run_accesses bit_defs)
  ultimately show ?thesis
    using ret pll_start_lock_order [of 9 sim_hw hdr_masks 900000 18000000 "reset_machine 0"]
    by blast
qed

text \<open>
  C7, as the code has it: \<^verbatim>\<open>pll_start\<close> sets HSEON first and calls
  \<^verbatim>\<open>flash_latency\<close> second. In every run the write of the wait states to
  \<^verbatim>\<open>FLASH->ACR\<close> is the second access, after HSEON has been set, and it comes
  before PLL2ON and PLLON are set and before SYSCLK is changed to the PLL.
\<close>

theorem flash_latency_order:
  "before (sets_bit RCC_CR_HSEON_bit) (writes_reg FLASH_ACR) (accesses fuel hw k c f s) \<and>
   before (writes_reg FLASH_ACR) pll_step (accesses fuel hw k c f s) \<and>
   sets_bit RCC_CR_HSEON_bit (accesses fuel hw k c f s ! 0) \<and>
   writes_reg FLASH_ACR (accesses fuel hw k c f s ! 1)"
  using pll_start_shape [of fuel hw k c f s]
  by (elim disjE conjE exE) (simp_all add: seq_defs kind_defs bit_defs before_simps)

theorem flash_latency_order_witness:
  "before (sets_bit RCC_CR_HSEON_bit) (writes_reg FLASH_ACR)
     (accesses 9 sim_hw hdr_masks 900000 18000000 (reset_machine 0)) \<and>
   before (writes_reg FLASH_ACR) pll_step
     (accesses 9 sim_hw hdr_masks 900000 18000000 (reset_machine 0)) \<and>
   take 2 (accesses 9 sim_hw hdr_masks 900000 18000000 (reset_machine 0)) =
     [(Enable_HSE, BB_Set RCC_CR 16), (Set_latency, Reg_Or FLASH_ACR 0)]"
  using flash_latency_order [of 9 sim_hw hdr_masks 900000 18000000 "reset_machine 0"]
  by (simp add: sim_run_accesses kind_defs bit_defs)

text \<open>
  The claim as stated, that the write of the wait states comes before every
  clock-enable step (HSEON, PLL2ON, PLLON), fails on the run with a crystal of
  900,000 Hz and a target of 18,000,000 Hz: HSEON is set before it.
\<close>

theorem flash_latency_first_counterexample:
  "\<not> before (writes_reg FLASH_ACR) clock_enable
       (accesses 9 sim_hw hdr_masks 900000 18000000 (reset_machine 0))"
  by (simp add: sim_run_accesses kind_defs bit_defs)

subsection \<open>Flash wait states\<close>

text \<open>
  C5: the wait-state value that \<^verbatim>\<open>flash_latency\<close> ORs into \<^verbatim>\<open>FLASH->ACR\<close> is a
  step function of the frequency alone: 0 below 24,000,000, 1 from 24,000,000
  up to 47,999,999, and 2 from 48,000,000 on. The machine state has no
  influence on the value, and the access is the only one the function makes.
\<close>

theorem flash_latency_step:
  "(unat frequency < 24000000 \<longrightarrow>
      flash_latency hw frequency s = reg_or hw Set_latency FLASH_ACR 0 s) \<and>
   (24000000 \<le> unat frequency \<and> unat frequency < 48000000 \<longrightarrow>
      flash_latency hw frequency s = reg_or hw Set_latency FLASH_ACR 1 s) \<and>
   (48000000 \<le> unat frequency \<longrightarrow>
      flash_latency hw frequency s = reg_or hw Set_latency FLASH_ACR 2 s)"
  by (simp add: flash_latency_def word_less_nat_alt)

theorem flash_latency_step_witness:
  "flash_latency sim_hw 23999999 (reset_machine 0) = reg_or sim_hw Set_latency FLASH_ACR 0 (reset_machine 0) \<and>
   flash_latency sim_hw 24000000 (reset_machine 0) = reg_or sim_hw Set_latency FLASH_ACR 1 (reset_machine 0) \<and>
   flash_latency sim_hw 47999999 (reset_machine 0) = reg_or sim_hw Set_latency FLASH_ACR 1 (reset_machine 0) \<and>
   flash_latency sim_hw 48000000 (reset_machine 0) = reg_or sim_hw Set_latency FLASH_ACR 2 (reset_machine 0)"
  using flash_latency_step [of 23999999 sim_hw "reset_machine 0"]
    flash_latency_step [of 24000000 sim_hw "reset_machine 0"]
    flash_latency_step [of 47999999 sim_hw "reset_machine 0"]
    flash_latency_step [of 48000000 sim_hw "reset_machine 0"]
  by simp

end
